theory Spec2Isabelle
  imports Complex_Main "HOL-Library.Sublist" "HOL-Library.Char_ord" "HOL-Library.List_Lexorder"
begin

section \<open>Python values shared by the agents\<close>

text \<open>
  Exceptions are values. The constructor is the Python class, the argument is what
  \<open>str(e)\<close> returns. \<open>ApiError\<close> stands for whatever class the generation service
  raises. \<open>JSONDecodeError\<close> is a subclass of \<open>ValueError\<close> in Python, so a handler
  that names \<open>ValueError\<close> catches it too.
\<close>

datatype exc =
    ValueError string
  | TypeError string
  | OverflowError string
  | UnboundLocalError string
  | KeyError string
  | JSONDecodeError string
  | ApiError string

fun str_exc :: "exc \<Rightarrow> string" where
  "str_exc (ValueError m) = m"
| "str_exc (TypeError m) = m"
| "str_exc (OverflowError m) = m"
| "str_exc (UnboundLocalError m) = m"
| "str_exc (KeyError m) = m"
| "str_exc (JSONDecodeError m) = m"
| "str_exc (ApiError m) = m"

text \<open>Python's \<open>sub in s\<close> on strings: \<open>sub\<close> occurs as a contiguous slice of \<open>s\<close>.\<close>

fun str_contains :: "string \<Rightarrow> string \<Rightarrow> bool" where
  "str_contains sub [] = (sub = [])"
| "str_contains sub (c # cs) = (prefix sub (c # cs) \<or> str_contains sub cs)"

section \<open>RateLimiter\<close>

text \<open>
  \<open>datetime\<close> values are microseconds since an epoch (\<open>datetime\<close> has microsecond
  resolution), \<open>timedelta(seconds=s)\<close> is \<open>s * 1000000\<close>. The wall clock is part of
  the state: \<open>time.sleep\<close> advances it. The jitter drawn by \<open>random.uniform(0.1, 2.0)\<close>
  is an input, in microseconds.
\<close>

record RateLimiter =
  max_requests :: nat
  time_window :: int
  requests :: "int list"

definition RateLimiter_init :: "nat \<Rightarrow> int \<Rightarrow> RateLimiter" where
  "RateLimiter_init mr tw = \<lparr>max_requests = mr, time_window = tw, requests = []\<rparr>"

definition timedelta_seconds :: "int \<Rightarrow> int" where
  "timedelta_seconds s = s * 1000000"

text \<open>\<open>min(xs)\<close> raises \<open>ValueError\<close> on an empty list.\<close>

fun py_min :: "int list \<Rightarrow> exc + int" where
  "py_min [] = Inl (ValueError ''min() arg is an empty sequence'')"
| "py_min (x # xs) = Inr (fold min xs x)"

text \<open>
  \<open>wait_if_needed jitter (clock, rl)\<close>: \<open>now\<close> is read once, on entry; the purge keeps
  the timestamps younger than the window; when the quota is used up the call sleeps
  until the oldest kept timestamp leaves the window, plus the jitter; then \<open>now\<close> (the
  value read on entry) is appended. The result is what the call raised, if anything
  (only \<open>min\<close> can raise, after the purge has been stored), with the clock on return
  and the limiter.
\<close>

definition wait_if_needed :: "int \<Rightarrow> int \<times> RateLimiter \<Rightarrow> (exc + unit) \<times> (int \<times> RateLimiter)" where
  "wait_if_needed jitter w =
     (let clock = fst w; rl = snd w;
          now = clock;
          kept = filter (\<lambda>req_time. now - req_time < timedelta_seconds (time_window rl)) (requests rl)
      in if length kept \<ge> max_requests rl then
           (case py_min kept of
              Inl e \<Rightarrow> (Inl e, (clock, rl\<lparr>requests := kept\<rparr>))
            | Inr oldest_request \<Rightarrow>
                (let wait_time = oldest_request + timedelta_seconds (time_window rl) - now;
                     clock' = (if wait_time > 0 then clock + (wait_time + jitter) else clock)
                 in (Inr (), (clock', rl\<lparr>requests := kept @ [now]\<rparr>))))
         else (Inr (), (clock, rl\<lparr>requests := kept @ [now]\<rparr>)))"

text \<open>
  A caller's history: before each \<open>acquire\<close> the caller lets \<open>delay\<close> microseconds pass;
  the call draws \<open>jitter\<close>. \<open>acquire_all\<close> returns the final state and, for every call,
  the clock at which it returned (the moment the external request is issued); it stops
  at the first call that raises.
\<close>

fun acquire_all :: "(int \<times> int) list \<Rightarrow> int \<times> RateLimiter \<Rightarrow> int list \<Rightarrow>
    exc + ((int \<times> RateLimiter) \<times> int list)" where
  "acquire_all [] w issued = Inr (w, issued)"
| "acquire_all ((delay, jitter) # cs) w issued =
     (case wait_if_needed jitter (fst w + delay, snd w) of
        (Inl e, w') \<Rightarrow> Inl e
      | (Inr u, w') \<Rightarrow> acquire_all cs w' (issued @ [fst w']))"

text \<open>The timestamps of \<open>ts\<close> that fall in the window \<open>[t0, t0 + W)\<close>.\<close>

definition in_window :: "int \<Rightarrow> int \<Rightarrow> int list \<Rightarrow> int list" where
  "in_window W t0 ts = filter (\<lambda>t. t0 \<le> t \<and> t < t0 + W) ts"

section \<open>The retry loop around an external generation call\<close>

text \<open>
  The world threaded through the agents: the wall clock (microseconds), the number of
  requests sent to the generation service so far, the \<open>time.sleep\<close> calls made by the
  retry code (in seconds, oldest first), and the rate limiter in use.
\<close>

record world =
  clock :: int
  issued :: nat
  sleeps :: "int list"
  limiter :: RateLimiter

text \<open>
  What lies outside the repository: the \<open>k\<close>-th request to the service either raises
  or returns \<open>response.text\<close>; \<open>uniform k\<close> is the jitter \<open>random.uniform(0.1, 2.0)\<close>
  gives the acquire that precedes it, in microseconds. Nothing below depends on the
  range of the jitter.
\<close>

record service =
  generate_content :: "nat \<Rightarrow> exc + string"
  uniform :: "nat \<Rightarrow> int"

definition time_sleep :: "int \<Rightarrow> world \<Rightarrow> world" where
  "time_sleep secs w = w\<lparr>clock := clock w + timedelta_seconds secs, sleeps := sleeps w @ [secs]\<rparr>"

text \<open>\<open>self.rate_limiter.wait_if_needed()\<close> on the limiter of the world.\<close>

definition acquire :: "service \<Rightarrow> world \<Rightarrow> (exc + unit) \<times> world" where
  "acquire sv w =
     (case wait_if_needed (uniform sv (issued w)) (clock w, limiter w) of
        (r, (c, rl)) \<Rightarrow> (r, w\<lparr>clock := c, limiter := rl\<rparr>))"

text \<open>\<open>self.model.generate_content(...)\<close> followed by reading \<open>response.text\<close>.\<close>

definition send :: "service \<Rightarrow> world \<Rightarrow> (exc + string) \<times> world" where
  "send sv w = (generate_content sv (issued w), w\<lparr>issued := issued w + 1\<rparr>)"

definition max_retries :: nat where
  "max_retries = 3"

text \<open>Decimal digits of a natural number, as an f-string prints it.\<close>

fun str_nat :: "nat \<Rightarrow> string" where
  "str_nat n =
     (if n < 10 then [''0123456789'' ! n]
      else str_nat (n div 10) @ [''0123456789'' ! (n mod 10)])"

declare str_nat.simps [simp del]

definition retries_exhausted :: exc where
  "retries_exhausted =
     ValueError (''Failed to get response after '' @ str_nat max_retries @ '' retries'')"

text \<open>
  The \<open>while retry_count < max_retries\<close> loop, which \<open>generate_job_details\<close> and
  \<open>calculate_fit_score\<close> both contain; \<open>body\<close> is the \<open>try\<close> block, which either raises
  or reaches \<open>break\<close> with a value. When the loop condition fails the code after the loop
  reads the variable the \<open>try\<close> block never bound.
\<close>

function retry_loop :: "(world \<Rightarrow> (exc + 'a) \<times> world) \<Rightarrow> nat \<Rightarrow> world \<Rightarrow> (exc + 'a) \<times> world" where
  "retry_loop body retry_count w =
     (if retry_count < max_retries then
        (case body w of
           (Inr v, w') \<Rightarrow> (Inr v, w')
         | (Inl api_error, w') \<Rightarrow>
             (let retry_count' = retry_count + 1 in
              if str_contains ''429'' (str_exc api_error) \<and> retry_count' < max_retries then
                retry_loop body retry_count' (time_sleep 35 w')
              else if retry_count' = max_retries then (Inl retries_exhausted, w')
              else (Inl api_error, w')))
      else (Inl (UnboundLocalError ''local variable referenced before assignment''), w))"
  by pat_completeness auto
termination
  by (relation "measure (\<lambda>(body, retry_count, w). max_retries - retry_count)") auto

declare retry_loop.simps [simp del]

text \<open>The \<open>try\<close> block of \<open>generate_job_details\<close>.\<close>

definition job_attempt :: "service \<Rightarrow> world \<Rightarrow> (exc + string) \<times> world" where
  "job_attempt sv w =
     (case acquire sv w of
        (Inl e, w1) \<Rightarrow> (Inl e, w1)
      | (Inr u, w1) \<Rightarrow>
          (case send sv w1 of
             (Inl e, w2) \<Rightarrow> (Inl e, w2)
           | (Inr text, w2) \<Rightarrow>
               if text = [] then (Inl (ValueError ''Empty response from Gemini AI''), w2)
               else (Inr text, w2)))"

text \<open>
  \<open>generate_job_details\<close> creates its limiter just before the loop:
  \<open>rate_limiter = RateLimiter(max_requests=2, time_window=60)\<close>.
\<close>

definition job_request :: "service \<Rightarrow> world \<Rightarrow> (exc + string) \<times> world" where
  "job_request sv w = retry_loop (job_attempt sv) 0 (w\<lparr>limiter := RateLimiter_init 2 60\<rparr>)"

text \<open>
  The outcome of the \<open>k\<close>-th attempt of \<open>generate_job_details\<close> as the service decides
  it: what the request raises, or its text, an empty text counting as a failure.
\<close>

definition job_outcome :: "service \<Rightarrow> nat \<Rightarrow> exc + string" where
  "job_outcome sv k =
     (case generate_content sv k of
        Inl e \<Rightarrow> Inl e
      | Inr text \<Rightarrow> if text = [] then Inl (ValueError ''Empty response from Gemini AI'') else Inr text)"

text \<open>The handler's test \<open>"429" in str(api_error)\<close>, on an outcome.\<close>

definition rate_exceeded :: "exc + 'a \<Rightarrow> bool" where
  "rate_exceeded r = (case r of Inl e \<Rightarrow> str_contains ''429'' (str_exc e) | Inr v \<Rightarrow> False)"

text \<open>
  The retry policy, on the outcomes \<open>out k\<close> of the requests. From request \<open>k\<close> on
  \<open>attempts_made\<close> attempts are made: a further attempt follows only a rate-exceeded
  failure, and there is never a fourth. What can be observed afterwards is the result
  (the value of a successful last attempt; its failure passed on, unless it was the
  third attempt, whose failure is replaced by \<open>retries_exhausted\<close>), the number of
  requests issued, and the sleeps: 35 seconds before each retry.
\<close>

definition attempts_made :: "(nat \<Rightarrow> exc + 'a) \<Rightarrow> nat \<Rightarrow> nat" where
  "attempts_made out k =
     (if rate_exceeded (out k) then (if rate_exceeded (out (k + 1)) then 3 else 2) else 1)"

definition retry_policy :: "(nat \<Rightarrow> exc + 'a) \<Rightarrow> nat \<Rightarrow> int list \<Rightarrow> (exc + 'a) \<times> nat \<times> int list" where
  "retry_policy out k slept =
     (let n = attempts_made out k
      in ((case out (k + n - 1) of
             Inr v \<Rightarrow> Inr v
           | Inl e \<Rightarrow> if n = max_retries then Inl retries_exhausted else Inl e),
          k + n,
          slept @ replicate (n - 1) 35))"

definition observed :: "(exc + 'a) \<times> world \<Rightarrow> (exc + 'a) \<times> nat \<times> int list" where
  "observed r = (fst r, issued (snd r), sleeps (snd r))"

text \<open>Fixtures: a fresh world, and a service that answers 429, 429, then a server error.\<close>

definition world0 :: world where
  "world0 = \<lparr>clock = 0, issued = 0, sleeps = [], limiter = RateLimiter_init 2 60\<rparr>"

definition quota_quota_crash :: service where
  "quota_quota_crash =
     \<lparr>generate_content = (\<lambda>k. if k < 2 then Inl (ApiError ''429 Resource exhausted'')
                                else Inl (ApiError ''500 Internal error'')),
      uniform = (\<lambda>k. 100000)\<rparr>"

section \<open>Python strings\<close>

text \<open>
  A Python \<open>str\<close> is modelled as a \<open>string\<close> with one \<open>char\<close> per code point, so the
  model covers the code points below 256 (Latin-1). \<open>str.lower\<close>, \<open>str.isspace\<close>,
  \<open>str.strip\<close> and \<open>str.split\<close> are written out for that range.
\<close>

definition lower_char :: "char \<Rightarrow> char" where
  "lower_char c =
     (let n = (of_char c :: nat)
      in if (65 \<le> n \<and> n \<le> 90) \<or> (192 \<le> n \<and> n \<le> 222 \<and> n \<noteq> 215) then char_of (n + 32) else c)"

definition str_lower :: "string \<Rightarrow> string" where
  "str_lower s = map lower_char s"

definition is_space :: "char \<Rightarrow> bool" where
  "is_space c =
     (let n = (of_char c :: nat)
      in (9 \<le> n \<and> n \<le> 13) \<or> (28 \<le> n \<and> n \<le> 32) \<or> n = 133 \<or> n = 160)"

definition str_strip :: "string \<Rightarrow> string" where
  "str_strip s = rev (dropWhile is_space (rev (dropWhile is_space s)))"



section \<open>Entries of a parsed resume\<close>

text \<open>
  What \<open>_validate_chunk_info\<close> leaves in the four lists of a chunk, and so what the
  accumulator \<open>combined_info\<close> holds: a skill is a \<open>str\<close>; an education entry is a dict
  with the keys degree, institution, year; an experience entry a dict with title,
  company, duration and the list responsibilities; a project a dict with name,
  description and the list technologies. All values are \<open>str\<close>.
\<close>

datatype item =
    Skill string
  | Education string string string
  | Experience string string string "string list"
  | Project string string "string list"

fun is_dict :: "item \<Rightarrow> bool" where
  "is_dict (Skill s) = False"
| "is_dict d = True"

text \<open>
  \<open>json.dumps\<close> with its defaults (\<open>ensure_ascii=True\<close>, separators \<open>", "\<close> and \<open>": "\<close>)
  on these dicts. Inside a JSON string the quote and the backslash are escaped with a
  backslash, backspace, tab, newline, form feed and carriage return have their
  two-character escapes, and every other character outside \<open>' '..'~'\<close> is written
  \<open>\uXXXX\<close> with four lower-case hex digits.
\<close>

definition hexdigit :: "nat \<Rightarrow> char" where
  "hexdigit d = ''0123456789abcdef'' ! d"

definition backslash :: char where
  "backslash = CHR 0x5C"

definition dquote :: char where
  "dquote = CHR 0x22"

definition escape_char :: "char \<Rightarrow> string" where
  "escape_char c =
     (let n = (of_char c :: nat)
      in if n = 0x22 then [backslash, dquote]
         else if n = 0x5C then [backslash, backslash]
         else if n = 8 then [backslash, CHR ''b'']
         else if n = 9 then [backslash, CHR ''t'']
         else if n = 10 then [backslash, CHR ''n'']
         else if n = 12 then [backslash, CHR ''f'']
         else if n = 13 then [backslash, CHR ''r'']
         else if 32 \<le> n \<and> n \<le> 126 then [c]
         else [backslash, CHR ''u'', hexdigit (n div 4096 mod 16), hexdigit (n div 256 mod 16),
               hexdigit (n div 16 mod 16), hexdigit (n mod 16)])"

definition json_string :: "string \<Rightarrow> string" where
  "json_string s = dquote # concat (map escape_char s) @ [dquote]"

fun join :: "string \<Rightarrow> string list \<Rightarrow> string" where
  "join sep [] = []"
| "join sep [x] = x"
| "join sep (x # y # ys) = x @ sep @ join sep (y # ys)"

definition json_list :: "string list \<Rightarrow> string" where
  "json_list xs = ''['' @ join '', '' (map json_string xs) @ '']''"

definition json_field :: "string \<Rightarrow> string \<Rightarrow> string" where
  "json_field k v = json_string k @ '': '' @ v"

fun json_dumps :: "item \<Rightarrow> string" where
  "json_dumps (Skill s) = json_string s"
| "json_dumps (Education degree institution year) =
     ''{'' @ join '', '' [json_field ''degree'' (json_string degree),
                         json_field ''institution'' (json_string institution),
                         json_field ''year'' (json_string year)] @ ''}''"
| "json_dumps (Experience title company duration responsibilities) =
     ''{'' @ join '', '' [json_field ''title'' (json_string title),
                         json_field ''company'' (json_string company),
                         json_field ''duration'' (json_string duration),
                         json_field ''responsibilities'' (json_list responsibilities)] @ ''}''"
| "json_dumps (Project name description technologies) =
     ''{'' @ join '', '' [json_field ''name'' (json_string name),
                         json_field ''description'' (json_string description),
                         json_field ''technologies'' (json_list technologies)] @ ''}''"

section \<open>difflib.SequenceMatcher\<close>

text \<open>
  \<open>SequenceMatcher(None, a, b).ratio()\<close> of the Python standard library, as the merge
  step calls it: no junk predicate, \<open>autojunk\<close> on. An element of \<open>b\<close> is popular when \<open>b\<close>
  has at least 200 elements and the element occurs more than \<open>len(b) // 100 + 1\<close> times;
  \<open>b2j\<close> maps an element to the ascending positions it has in \<open>b\<close>, and to nothing
  when it is popular.
\<close>

definition popular :: "'a list \<Rightarrow> 'a \<Rightarrow> bool" where
  "popular b x = (length b \<ge> 200 \<and> count_list b x > length b div 100 + 1)"

definition b2j :: "'a list \<Rightarrow> 'a \<Rightarrow> nat list" where
  "b2j b x = (if popular b x then [] else filter (\<lambda>j. b ! j = x) [0..<length b])"

text \<open>
  \<open>find_longest_match\<close>. The inner loop over the positions \<open>j\<close> of \<open>a[i]\<close> in \<open>b\<close>:
  \<open>j2len\<close> is the dict of the previous row and \<open>newj2len\<close> the one being filled, both
  read with default 0 (\<open>j2len.get(j-1, 0)\<close>, and no key is negative); a match is
  \<open>(besti, bestj, bestsize)\<close>. Positions are natural numbers: \<open>i-k+1\<close> is written
  \<open>i + 1 - k\<close>, and \<open>k\<close> never exceeds \<open>i + 1\<close> or \<open>j + 1\<close>.
\<close>

type_synonym match = "nat \<times> nat \<times> nat"

fun row_loop :: "(nat \<Rightarrow> nat) \<Rightarrow> nat \<Rightarrow> nat \<Rightarrow> nat \<Rightarrow> nat list \<Rightarrow> match \<times> (nat \<Rightarrow> nat)
    \<Rightarrow> match \<times> (nat \<Rightarrow> nat)" where
  "row_loop j2len i blo bhi [] st = st"
| "row_loop j2len i blo bhi (j # js) (best, newj2len) =
     (if j < blo then row_loop j2len i blo bhi js (best, newj2len)
      else if j \<ge> bhi then (best, newj2len)
      else
        (let k = (if j = 0 then 0 else j2len (j - 1)) + 1;
             best' = (if k > snd (snd best) then (i + 1 - k, j + 1 - k, k) else best)
         in row_loop j2len i blo bhi js (best', newj2len(j := k))))"

text \<open>The outer loop \<open>for i in range(alo, ahi)\<close>.\<close>

definition longest_junk_free :: "'a list \<Rightarrow> 'a list \<Rightarrow> nat \<Rightarrow> nat \<Rightarrow> nat \<Rightarrow> nat \<Rightarrow> match \<times> (nat \<Rightarrow> nat)" where
  "longest_junk_free a b alo ahi blo bhi =
     fold (\<lambda>i (best, j2len). row_loop j2len i blo bhi (b2j b (a ! i)) (best, (\<lambda>j. 0)))
          [alo..<ahi] ((alo, blo, 0), (\<lambda>j. 0))"

text \<open>
  The two \<open>while\<close> loops that extend the best block at each end. With no junk
  predicate the set \<open>bjunk\<close> is empty, so their test \<open>not isbjunk(...)\<close> is true and the
  two later loops, which ask for \<open>isbjunk(...)\<close>, never run.
\<close>

function extend_left :: "'a list \<Rightarrow> 'a list \<Rightarrow> nat \<Rightarrow> nat \<Rightarrow> match \<Rightarrow> match" where
  "extend_left a b alo blo (besti, bestj, bestsize) =
     (if besti > alo \<and> bestj > blo \<and> a ! (besti - 1) = b ! (bestj - 1)
      then extend_left a b alo blo (besti - 1, bestj - 1, bestsize + 1)
      else (besti, bestj, bestsize))"
  by pat_completeness auto
termination
  by (relation "measure (\<lambda>(a, b, alo, blo, besti, bestj, bestsize). besti)") auto

declare extend_left.simps [simp del]

function extend_right :: "'a list \<Rightarrow> 'a list \<Rightarrow> nat \<Rightarrow> nat \<Rightarrow> match \<Rightarrow> match" where
  "extend_right a b ahi bhi (besti, bestj, bestsize) =
     (if besti + bestsize < ahi \<and> bestj + bestsize < bhi
         \<and> a ! (besti + bestsize) = b ! (bestj + bestsize)
      then extend_right a b ahi bhi (besti, bestj, bestsize + 1)
      else (besti, bestj, bestsize))"
  by pat_completeness auto
termination
  by (relation "measure (\<lambda>(a, b, ahi, bhi, besti, bestj, bestsize). ahi - (besti + bestsize))") auto

declare extend_right.simps [simp del]

definition find_longest_match :: "'a list \<Rightarrow> 'a list \<Rightarrow> nat \<Rightarrow> nat \<Rightarrow> nat \<Rightarrow> nat \<Rightarrow> match" where
  "find_longest_match a b alo ahi blo bhi =
     extend_right a b ahi bhi
       (extend_left a b alo blo (fst (longest_junk_free a b alo ahi blo bhi)))"


text \<open>
  The block found lies in the \<open>a\<close>-range it was asked for; this is what makes the
  recursion of \<open>get_matching_blocks\<close> terminate.
\<close>

definition block_inside :: "nat \<Rightarrow> nat \<Rightarrow> match \<Rightarrow> bool" where
  "block_inside alo ahi m = (alo \<le> fst m \<and> (fst m + snd (snd m) \<le> ahi \<or> (fst m = alo \<and> snd (snd m) = 0)))"

lemma row_loop_inside:
  assumes "alo \<le> i" "i < ahi" "\<forall>j. j2len j \<le> i - alo"
    and "block_inside alo ahi best" "\<forall>j. new j \<le> i + 1 - alo"
  shows "block_inside alo ahi (fst (row_loop j2len i blo bhi js (best, new)))
         \<and> (\<forall>j. snd (row_loop j2len i blo bhi js (best, new)) j \<le> i + 1 - alo)"
  using assms(4,5)
proof (induction js arbitrary: best new)
  case Nil
  then show ?case by simp
next
  case (Cons j js)
  let ?k = "(if j = 0 then 0 else j2len (j - 1)) + 1"
  have k: "?k \<le> i + 1 - alo" using assms(1,3) by (auto simp: Suc_diff_le le_imp_less_Suc)
  have w: "block_inside alo ahi (i + 1 - ?k, j + 1 - ?k, ?k)"
    using k assms(1,2) unfolding block_inside_def by auto
  have n: "\<forall>j'. (new(j := ?k)) j' \<le> i + 1 - alo" using k Cons.prems(2) by auto
  show ?case
  proof (cases "j < blo")
    case True
    then have eq: "row_loop j2len i blo bhi (j # js) (best, new) = row_loop j2len i blo bhi js (best, new)"
      by simp
    show ?thesis unfolding eq by (rule Cons.IH[OF Cons.prems])
  next
    case low: False
    show ?thesis
    proof (cases "j \<ge> bhi")
      case True
      with low have eq: "row_loop j2len i blo bhi (j # js) (best, new) = (best, new)" by simp
      show ?thesis unfolding eq using Cons.prems by simp
    next
      case high: False
      show ?thesis
      proof (cases "?k > snd (snd best)")
        case True
        with low high have eq: "row_loop j2len i blo bhi (j # js) (best, new)
            = row_loop j2len i blo bhi js ((i + 1 - ?k, j + 1 - ?k, ?k), new(j := ?k))"
          by (simp add: Let_def)
        show ?thesis unfolding eq by (rule Cons.IH[OF w n])
      next
        case False
        with low high have eq: "row_loop j2len i blo bhi (j # js) (best, new)
            = row_loop j2len i blo bhi js (best, new(j := ?k))"
          by (simp add: Let_def)
        show ?thesis unfolding eq by (rule Cons.IH[OF Cons.prems(1) n])
      qed
    qed
  qed
qed

lemma longest_junk_free_inside:
  "block_inside alo ahi (fst (longest_junk_free a b alo ahi blo bhi))"
proof -
  let ?f = "\<lambda>i (best, j2len). row_loop j2len i blo bhi (b2j b (a ! i)) (best, (\<lambda>j. 0))"
  let ?s0 = "((alo, blo, 0), (\<lambda>j. 0::nat))"
  have "alo \<le> m \<Longrightarrow> block_inside alo m (fst (fold ?f [alo..<m] ?s0))
         \<and> (\<forall>j. snd (fold ?f [alo..<m] ?s0) j \<le> m - alo)" for m
  proof (induction m)
    case 0
    then show ?case by (simp add: block_inside_def)
  next
    case (Suc m)
    show ?case
    proof (cases "alo = Suc m")
      case True
      then show ?thesis by (simp add: block_inside_def)
    next
      case False
      with Suc.prems have le: "alo \<le> m" by simp
      obtain best j2len where st: "fold ?f [alo..<m] ?s0 = (best, j2len)" by (cases "fold ?f [alo..<m] ?s0")
      from Suc.IH[OF le] st have w: "block_inside alo m best" and b: "\<forall>j. j2len j \<le> m - alo" by auto
      from w have w': "block_inside alo (Suc m) best" unfolding block_inside_def by auto
      have z: "\<forall>j. (\<lambda>j. 0::nat) j \<le> m + 1 - alo" by simp
      have lt: "m < Suc m" by simp
      from row_loop_inside[OF le lt b w' z, of blo bhi "b2j b (a ! m)"]
      show ?thesis using le st by (simp add: Suc_diff_le)
    qed
  qed
  from this[of ahi] show ?thesis
  proof (cases "alo \<le> ahi")
    case True
    then show ?thesis using \<open>alo \<le> ahi \<Longrightarrow> _\<close> by (simp add: longest_junk_free_def)
  next
    case False
    then show ?thesis by (simp add: longest_junk_free_def block_inside_def)
  qed
qed

lemma extend_left_inside:
  "block_inside alo ahi m \<Longrightarrow> block_inside alo ahi (extend_left a b alo blo m)"
proof (induction a b alo blo m rule: extend_left.induct)
  case (1 a b alo blo besti bestj bestsize)
  show ?case
  proof (cases "besti > alo \<and> bestj > blo \<and> a ! (besti - 1) = b ! (bestj - 1)")
    case True
    with "1.prems" have "block_inside alo ahi (besti - 1, bestj - 1, bestsize + 1)"
      unfolding block_inside_def by auto
    with "1.IH" True show ?thesis by (subst extend_left.simps) simp
  next
    case False
    then have "extend_left a b alo blo (besti, bestj, bestsize) = (besti, bestj, bestsize)"
      by (subst extend_left.simps) auto
    with "1.prems" show ?thesis by simp
  qed
qed

lemma extend_right_inside:
  "block_inside alo ahi m \<Longrightarrow> block_inside alo ahi (extend_right a b ahi bhi m)"
proof (induction a b ahi bhi m rule: extend_right.induct)
  case (1 a b ahi bhi besti bestj bestsize)
  show ?case
  proof (cases "besti + bestsize < ahi \<and> bestj + bestsize < bhi
         \<and> a ! (besti + bestsize) = b ! (bestj + bestsize)")
    case True
    with "1.prems" have "block_inside alo ahi (besti, bestj, bestsize + 1)"
      unfolding block_inside_def by auto
    with "1.IH" True show ?thesis by (subst extend_right.simps) simp
  next
    case False
    then have "extend_right a b ahi bhi (besti, bestj, bestsize) = (besti, bestj, bestsize)"
      by (subst extend_right.simps) auto
    with "1.prems" show ?thesis by simp
  qed
qed

lemma find_longest_match_inside:
  "block_inside alo ahi (find_longest_match a b alo ahi blo bhi)"
  unfolding find_longest_match_def
  by (intro extend_right_inside extend_left_inside longest_junk_free_inside)

lemma find_longest_match_bounds:
  assumes "find_longest_match a b alo ahi blo bhi = (i, j, k)" "k \<noteq> 0"
  shows "alo \<le> i \<and> i + k \<le> ahi"
  using find_longest_match_inside[of alo ahi a b blo bhi] assms by (auto simp: block_inside_def)

text \<open>
  \<open>get_matching_blocks\<close> works through a queue of ranges; the blocks it collects are
  those of the recursion below (left part, block, right part). It then sorts them and
  merges adjacent ones, which does not change the sum of their sizes, the only thing
  \<open>ratio\<close> reads.
\<close>

function matching_blocks :: "'a list \<Rightarrow> 'a list \<Rightarrow> nat \<Rightarrow> nat \<Rightarrow> nat \<Rightarrow> nat \<Rightarrow> match list" where
  "matching_blocks a b alo ahi blo bhi =
     (case find_longest_match a b alo ahi blo bhi of
        (i, j, k) \<Rightarrow>
          if k \<noteq> 0 then
            (if alo < i \<and> blo < j then matching_blocks a b alo i blo j else [])
            @ [(i, j, k)]
            @ (if i + k < ahi \<and> j + k < bhi then matching_blocks a b (i + k) ahi (j + k) bhi else [])
          else [])"
  by pat_completeness auto
termination
proof (relation "measure (\<lambda>(a, b, alo, ahi, blo, bhi). ahi - alo)", goal_cases)
  case 1
  then show ?case by simp
next
  case (2 a b alo ahi blo bhi i r j k)
  then have "find_longest_match a b alo ahi blo bhi = (i, j, k)" by simp
  from find_longest_match_bounds[OF this 2(3)] 2(3) 2(4) show ?case by auto
next
  case (3 a b alo ahi blo bhi i r j k)
  then have "find_longest_match a b alo ahi blo bhi = (i, j, k)" by simp
  from find_longest_match_bounds[OF this 3(3)] 3(3) 3(4) show ?case by auto
qed

declare matching_blocks.simps [simp del]

text \<open>
  \<open>ratio\<close> is \<open>2.0 * matches / length\<close>, and 1.0 when both sequences are empty. The
  float quotient is modelled by the rational; the comparison with 0.8 made by the merge
  step has the same outcome on both as long as the two strings together have fewer
  than \<open>2^50\<close> characters, since \<open>2 * matches / length\<close> then differs from \<open>4/5\<close> by
  more than a rounding error whenever it differs at all.
\<close>

definition ratio :: "'a list \<Rightarrow> 'a list \<Rightarrow> rat" where
  "ratio a b =
     (let matches = sum_list (map (\<lambda>triple. snd (snd triple)) (matching_blocks a b 0 (length a) 0 (length b)));
          length = length a + length b
      in if length \<noteq> 0 then 2 * of_nat matches / of_nat length else 1)"

section \<open>Merging a chunk into the accumulator\<close>

text \<open>
  \<open>_merge_chunk_data\<close>. The string compared is \<open>json.dumps(item)\<close> for a dict and the
  item itself for a \<open>str\<close>. \<open>should_add\<close> is the inner loop over \<open>existing_items\<close>, which
  stops at the first existing item whose similarity exceeds 0.8.
\<close>

definition comparable :: "item \<Rightarrow> string" where
  "comparable it = (if is_dict it then json_dumps it else (case it of Skill s \<Rightarrow> s | _ \<Rightarrow> []))"

definition similarity :: "item \<Rightarrow> item \<Rightarrow> rat" where
  "similarity new_item existing_item =
     ratio (str_lower (comparable new_item)) (str_lower (comparable existing_item))"

fun should_add :: "item \<Rightarrow> item list \<Rightarrow> bool" where
  "should_add new_item [] = True"
| "should_add new_item (existing_item # rest) =
     (if similarity new_item existing_item > 8 / 10 then False else should_add new_item rest)"

fun merge_chunk_data :: "item list \<Rightarrow> item list \<Rightarrow> item list" where
  "merge_chunk_data existing_items [] = existing_items"
| "merge_chunk_data existing_items (new_item # new_items) =
     merge_chunk_data
       (if should_add new_item existing_items then existing_items @ [new_item] else existing_items)
       new_items"

section \<open>Cleaning the accumulator and filling empty sections\<close>

text \<open>
  The dict with the keys education, skills, experience and projects, which
  \<open>parse_resume\<close> builds, cleans and returns; \<open>parsing_error\<close> is \<open>None\<close> when the dict has
  no such key.
\<close>

record parsed =
  education :: "item list"
  skills :: "item list"
  experience :: "item list"
  projects :: "item list"
  parsing_error :: "string option"

text \<open>
  \<open>_clean_combined_info\<close>. An entry passes \<open>isinstance(edu, dict) and all(k in edu ...)\<close>
  when it is a dict with the keys of its section. The skills go through a \<open>set\<close> and
  \<open>sorted\<close>: duplicates removed, code-point order.
\<close>

fun clean_education :: "item \<Rightarrow> item list" where
  "clean_education (Education degree institution year) =
     [Education (str_strip degree) (str_strip institution) (str_strip year)]"
| "clean_education other = []"

fun clean_skill :: "item \<Rightarrow> string list" where
  "clean_skill (Skill skill) = (if skill \<noteq> [] then [str_strip skill] else [])"
| "clean_skill other = []"

fun clean_experience :: "item \<Rightarrow> item list" where
  "clean_experience (Experience title company duration responsibilities) =
     (let cleaned = map str_strip (filter (\<lambda>r. r \<noteq> []) responsibilities)
      in if cleaned \<noteq> [] then [Experience (str_strip title) (str_strip company) (str_strip duration) cleaned]
         else [])"
| "clean_experience other = []"

fun clean_project :: "item \<Rightarrow> item list" where
  "clean_project (Project name description technologies) =
     (let cleaned = map str_strip (filter (\<lambda>t. t \<noteq> []) technologies)
      in if cleaned \<noteq> [] then [Project (str_strip name) (str_strip description) cleaned]
         else [])"
| "clean_project other = []"

definition clean_combined_info :: "parsed \<Rightarrow> parsed" where
  "clean_combined_info combined_info =
     \<lparr>education = concat (map clean_education (education combined_info)),
      skills = map Skill (sort (remdups (concat (map clean_skill (skills combined_info))))),
      experience = concat (map clean_experience (experience combined_info)),
      projects = concat (map clean_project (projects combined_info)),
      parsing_error = None\<rparr>"

text \<open>
  \<open>_is_valid_result\<close> replaces each empty section by one placeholder entry, in place,
  and returns \<open>True\<close>.
\<close>

definition not_specified :: string where
  "not_specified = ''Not Specified''"

definition is_valid_result :: "parsed \<Rightarrow> bool \<times> parsed" where
  "is_valid_result cleaned_info =
     (let c1 = (if education cleaned_info = []
                then cleaned_info\<lparr>education := [Education not_specified not_specified not_specified]\<rparr>
                else cleaned_info);
          c2 = (if skills c1 = [] then c1\<lparr>skills := [Skill ''General Skills'']\<rparr> else c1);
          c3 = (if experience c2 = []
                then c2\<lparr>experience := [Experience not_specified not_specified not_specified [not_specified]]\<rparr>
                else c2);
          c4 = (if projects c3 = []
                then c3\<lparr>projects := [Project not_specified not_specified [not_specified]]\<rparr>
                else c3)
      in (True, c4))"

text \<open>Finalization: cleaning, then the placeholder step.\<close>

definition finalize :: "parsed \<Rightarrow> parsed" where
  "finalize combined_info = snd (is_valid_result (clean_combined_info combined_info))"

definition empty_info :: parsed where
  "empty_info = \<lparr>education = [], skills = [], experience = [], projects = [], parsing_error = None\<rparr>"

section \<open>JSON values and the Python operations applied to them\<close>

text \<open>
  What \<open>json.loads\<close> returns. A Python \<open>float\<close> is a rational or one of the three
  special values which \<open>json.loads\<close> accepts as \<open>Infinity\<close>, \<open>-Infinity\<close> and \<open>NaN\<close>;
  the rounding of float arithmetic is not modelled. A dict is an association list in
  insertion order.
\<close>

datatype pyfloat = Finite rat | PosInf | NegInf | NaN

datatype json =
    JNull
  | JBool bool
  | JInt int
  | JFloat pyfloat
  | JStr string
  | JList "json list"
  | JDict "(string \<times> json) list"

text \<open>
  Library behaviour the model does not fix: \<open>json.loads\<close> (a value or
  \<open>JSONDecodeError\<close>), \<open>float\<close> applied to a \<open>str\<close> (\<open>None\<close> where Python raises
  \<open>ValueError\<close>), \<open>repr\<close>, the text splitter of \<open>langchain\<close>, and the iteration order
  of a \<open>set\<close> of strings. The last three fields are the regular-expression passes of
  the repository, taken as given: \<open>_preprocess_resume_text\<close>; the extraction of a JSON
  value from a response text in \<open>parse_resume\<close> (code fences removed, trailing commas
  repaired, \<open>json.loads\<close>, then the outermost braces), which returns the value or
  raises; and \<open>_parse_unstructured_response\<close> (text, title, salary), which returns a
  mapping or \<open>None\<close>.
\<close>

record library =
  json_loads :: "string \<Rightarrow> exc + json"
  float_of_str :: "string \<Rightarrow> pyfloat option"
  py_repr :: "json \<Rightarrow> string"
  split_text :: "string \<Rightarrow> string list"
  set_order :: "string list \<Rightarrow> string list"
  preprocess_resume_text :: "string \<Rightarrow> string"
  extract_json :: "string \<Rightarrow> exc + json"
  parse_unstructured_response :: "string \<Rightarrow> string \<Rightarrow> int \<Rightarrow> json option"

definition then_do :: "exc + 'a \<Rightarrow> ('a \<Rightarrow> exc + 'b) \<Rightarrow> exc + 'b" where
  "then_do m f = (case m of Inl e \<Rightarrow> Inl e | Inr x \<Rightarrow> f x)"

definition quoted :: "string \<Rightarrow> string" where
  "quoted s = [CHR 0x27] @ s @ [CHR 0x27]"

fun py_type :: "json \<Rightarrow> string" where
  "py_type JNull = ''NoneType''"
| "py_type (JBool b) = ''bool''"
| "py_type (JInt i) = ''int''"
| "py_type (JFloat f) = ''float''"
| "py_type (JStr s) = ''str''"
| "py_type (JList xs) = ''list''"
| "py_type (JDict kvs) = ''dict''"

text \<open>Truth value of a Python object, as \<open>if x:\<close> and \<open>not x\<close> take it.\<close>

fun truthy :: "json \<Rightarrow> bool" where
  "truthy JNull = False"
| "truthy (JBool b) = b"
| "truthy (JInt i) = (i \<noteq> 0)"
| "truthy (JFloat (Finite r)) = (r \<noteq> 0)"
| "truthy (JFloat f) = True"
| "truthy (JStr s) = (s \<noteq> [])"
| "truthy (JList xs) = (xs \<noteq> [])"
| "truthy (JDict kvs) = (kvs \<noteq> [])"

text \<open>\<open>key in x\<close>, \<open>x[key]\<close> and \<open>x[key] = v\<close> for a \<open>str\<close> key.\<close>

fun py_in :: "string \<Rightarrow> json \<Rightarrow> exc + bool" where
  "py_in k (JDict kvs) = Inr (k \<in> set (map fst kvs))"
| "py_in k (JList xs) = Inr (JStr k \<in> set xs)"
| "py_in k (JStr s) = Inr (str_contains k s)"
| "py_in k v = Inl (TypeError (''argument of type '' @ quoted (py_type v) @ '' is not iterable''))"

fun py_getitem :: "json \<Rightarrow> string \<Rightarrow> exc + json" where
  "py_getitem (JDict kvs) k =
     (case map_of kvs k of None \<Rightarrow> Inl (KeyError (quoted k)) | Some v \<Rightarrow> Inr v)"
| "py_getitem (JList xs) k = Inl (TypeError ''list indices must be integers or slices, not str'')"
| "py_getitem (JStr s) k = Inl (TypeError (''string indices must be integers, not '' @ quoted ''str''))"
| "py_getitem v k = Inl (TypeError (quoted (py_type v) @ '' object is not subscriptable''))"

fun dict_set :: "(string \<times> json) list \<Rightarrow> string \<Rightarrow> json \<Rightarrow> (string \<times> json) list" where
  "dict_set [] k v = [(k, v)]"
| "dict_set (p # ps) k v = (if fst p = k then (k, v) # ps else p # dict_set ps k v)"

fun py_setitem :: "json \<Rightarrow> string \<Rightarrow> json \<Rightarrow> exc + json" where
  "py_setitem (JDict kvs) k v = Inr (JDict (dict_set kvs k v))"
| "py_setitem (JList xs) k v = Inl (TypeError ''list indices must be integers or slices, not str'')"
| "py_setitem x k v = Inl (TypeError (quoted (py_type x) @ '' object does not support item assignment''))"

text \<open>
  \<open>float(x)\<close>. An \<open>int\<close> converts unless it rounds to \<open>2^1024\<close>, which raises
  \<open>OverflowError\<close>.
\<close>

definition py_float :: "library \<Rightarrow> json \<Rightarrow> exc + pyfloat" where
  "py_float lib x =
     (case x of
        JInt i \<Rightarrow>
          if \<bar>i\<bar> < 2 ^ 1024 - 2 ^ 970 then Inr (Finite (of_int i))
          else Inl (OverflowError ''int too large to convert to float'')
      | JFloat f \<Rightarrow> Inr f
      | JBool b \<Rightarrow> Inr (Finite (if b then 1 else 0))
      | JStr s \<Rightarrow>
          (case float_of_str lib s of
             Some f \<Rightarrow> Inr f
           | None \<Rightarrow> Inl (ValueError (''could not convert string to float: '' @ py_repr lib (JStr s))))
      | _ \<Rightarrow> Inl (TypeError (''float() argument must be a string or a real number, not ''
                              @ quoted (py_type x))))"

text \<open>Float comparison and arithmetic; every comparison with \<open>NaN\<close> is false.\<close>

fun flt :: "pyfloat \<Rightarrow> pyfloat \<Rightarrow> bool" where
  "flt NaN y = False"
| "flt x NaN = False"
| "flt (Finite a) (Finite b) = (a < b)"
| "flt x NegInf = False"
| "flt NegInf y = True"
| "flt PosInf y = False"
| "flt x PosInf = True"

fun fsign :: "pyfloat \<Rightarrow> int" where
  "fsign (Finite a) = (if a < 0 then - 1 else if a = 0 then 0 else 1)"
| "fsign PosInf = 1"
| "fsign NegInf = - 1"
| "fsign NaN = 0"

fun fmul :: "pyfloat \<Rightarrow> pyfloat \<Rightarrow> pyfloat" where
  "fmul NaN y = NaN"
| "fmul x NaN = NaN"
| "fmul (Finite a) (Finite b) = Finite (a * b)"
| "fmul x y =
     (let s = fsign x * fsign y in if s = 0 then NaN else if 0 < s then PosInf else NegInf)"

fun fadd :: "pyfloat \<Rightarrow> pyfloat \<Rightarrow> pyfloat" where
  "fadd NaN y = NaN"
| "fadd x NaN = NaN"
| "fadd (Finite a) (Finite b) = Finite (a + b)"
| "fadd PosInf NegInf = NaN"
| "fadd NegInf PosInf = NaN"
| "fadd PosInf y = PosInf"
| "fadd NegInf y = NegInf"
| "fadd x y = y"

text \<open>
  \<open>min(a, b)\<close> and \<open>max(a, b)\<close> keep their first argument unless the second is
  strictly smaller, respectively larger.
\<close>

definition py_min2 :: "pyfloat \<Rightarrow> pyfloat \<Rightarrow> pyfloat" where
  "py_min2 a b = (if flt b a then b else a)"

definition py_max2 :: "pyfloat \<Rightarrow> pyfloat \<Rightarrow> pyfloat" where
  "py_max2 a b = (if flt a b then b else a)"

text \<open>\<open>c * x\<close> for a float constant \<open>c\<close>, and \<open>x > 100\<close>.\<close>

fun py_mul_float :: "rat \<Rightarrow> json \<Rightarrow> exc + pyfloat" where
  "py_mul_float c (JFloat f) = Inr (fmul (Finite c) f)"
| "py_mul_float c (JInt i) = Inr (Finite (c * of_int i))"
| "py_mul_float c (JBool b) = Inr (Finite (c * (if b then 1 else 0)))"
| "py_mul_float c (JStr s) = Inl (TypeError (''can't multiply sequence by non-int of type '' @ quoted ''float''))"
| "py_mul_float c (JList xs) = Inl (TypeError (''can't multiply sequence by non-int of type '' @ quoted ''float''))"
| "py_mul_float c x =
     Inl (TypeError (''unsupported operand type(s) for *: '' @ quoted ''float'' @ '' and ''
                     @ quoted (py_type x)))"

fun py_gt_100 :: "json \<Rightarrow> exc + bool" where
  "py_gt_100 (JFloat f) = Inr (flt (Finite 100) f)"
| "py_gt_100 (JInt i) = Inr (100 < i)"
| "py_gt_100 (JBool b) = Inr False"
| "py_gt_100 x =
     Inl (TypeError (quoted ''>'' @ '' not supported between instances of '' @ quoted (py_type x)
                     @ '' and '' @ quoted ''int''))"

section \<open>calculate_fit_score\<close>

definition score_dict :: "rat \<Rightarrow> string \<Rightarrow> json" where
  "score_dict x reasoning =
     JDict [(''skill_match_score'', JFloat (Finite x)),
            (''experience_relevance_score'', JFloat (Finite x)),
            (''education_alignment_score'', JFloat (Finite x)),
            (''overall_fit_score'', JFloat (Finite x)),
            (''reasoning'', JStr reasoning)]"

text \<open>The \<open>try\<close> block of the retry loop: acquire, request, \<open>json.loads(response.text)\<close>.\<close>

definition fit_attempt :: "library \<Rightarrow> service \<Rightarrow> world \<Rightarrow> (exc + json) \<times> world" where
  "fit_attempt lib sv w =
     (case acquire sv w of
        (Inl e, w1) \<Rightarrow> (Inl e, w1)
      | (Inr u, w1) \<Rightarrow>
          (case send sv w1 of
             (Inl e, w2) \<Rightarrow> (Inl e, w2)
           | (Inr text, w2) \<Rightarrow> (json_loads lib text, w2)))"

text \<open>The outcome of the \<open>k\<close>-th attempt of \<open>calculate_fit_score\<close> as the service decides it.\<close>

definition fit_outcome :: "library \<Rightarrow> service \<Rightarrow> nat \<Rightarrow> exc + json" where
  "fit_outcome lib sv k =
     (case generate_content sv k of Inl e \<Rightarrow> Inl e | Inr text \<Rightarrow> json_loads lib text)"

definition required_fields :: "string list" where
  "required_fields = [''skill_match_score'', ''experience_relevance_score'',
                      ''education_alignment_score'', ''overall_fit_score'', ''reasoning'']"

text \<open>The handler \<open>except (ValueError, TypeError)\<close>; \<open>JSONDecodeError\<close> is a \<open>ValueError\<close>.\<close>

fun is_value_or_type_error :: "exc \<Rightarrow> bool" where
  "is_value_or_type_error (ValueError m) = True"
| "is_value_or_type_error (TypeError m) = True"
| "is_value_or_type_error (JSONDecodeError m) = True"
| "is_value_or_type_error e = False"

text \<open>
  One round of \<open>for field in required_fields\<close>: a missing field gets 15.0 (or the
  text for \<open>reasoning\<close>); a present numeric field is converted with \<open>float\<close> and clamped
  with \<open>max(0.0, min(100.0, ...))\<close>, and gets 15.0 when the conversion raises
  \<open>ValueError\<close> or \<open>TypeError\<close>.
\<close>

definition convert_and_clamp :: "library \<Rightarrow> json \<Rightarrow> string \<Rightarrow> exc + json" where
  "convert_and_clamp lib scores field =
     then_do (py_getitem scores field) (\<lambda>v.
     then_do (py_float lib v) (\<lambda>f.
     then_do (py_setitem scores field (JFloat f)) (\<lambda>scores1.
       py_setitem scores1 field (JFloat (py_max2 (Finite 0) (py_min2 (Finite 100) f))))))"

definition normalise_field :: "library \<Rightarrow> string \<Rightarrow> json \<Rightarrow> exc + json" where
  "normalise_field lib field scores =
     then_do (py_in field scores) (\<lambda>present.
       if \<not> present then
         py_setitem scores field
           (if field \<noteq> ''reasoning'' then JFloat (Finite 15) else JStr ''Score calculation incomplete'')
       else if field \<noteq> ''reasoning'' then
         (case convert_and_clamp lib scores field of
            Inr scores' \<Rightarrow> Inr scores'
          | Inl e \<Rightarrow>
              if is_value_or_type_error e then py_setitem scores field (JFloat (Finite 15))
              else Inl e)
       else Inr scores)"

fun normalise_fields :: "library \<Rightarrow> string list \<Rightarrow> json \<Rightarrow> exc + json" where
  "normalise_fields lib [] scores = Inr scores"
| "normalise_fields lib (field # rest) scores =
     then_do (normalise_field lib field scores) (normalise_fields lib rest)"

text \<open>
  \<open>if not scores['overall_fit_score'] or scores['overall_fit_score'] > 100\<close>: the
  weighted average \<open>0.4 * skill + 0.4 * experience + 0.2 * education\<close> replaces the
  overall score.
\<close>

definition weighted_average :: "json \<Rightarrow> exc + json" where
  "weighted_average scores =
     then_do (py_getitem scores ''overall_fit_score'') (\<lambda>overall.
     then_do (if \<not> truthy overall then Inr True else py_gt_100 overall) (\<lambda>recompute.
       if recompute then
         then_do (py_getitem scores ''skill_match_score'') (\<lambda>s.
         then_do (py_mul_float (4 / 10) s) (\<lambda>a.
         then_do (py_getitem scores ''experience_relevance_score'') (\<lambda>e.
         then_do (py_mul_float (4 / 10) e) (\<lambda>b.
         then_do (py_getitem scores ''education_alignment_score'') (\<lambda>d.
         then_do (py_mul_float (2 / 10) d) (\<lambda>c.
           py_setitem scores ''overall_fit_score'' (JFloat (fadd (fadd a b) c))))))))
       else Inr scores))"

fun is_JSONDecodeError :: "exc \<Rightarrow> bool" where
  "is_JSONDecodeError (JSONDecodeError m) = True"
| "is_JSONDecodeError e = False"

text \<open>
  The two handlers of the inner \<open>try\<close>: \<open>except json.JSONDecodeError\<close>, then
  \<open>except Exception\<close>.
\<close>

definition score_failure :: "exc \<Rightarrow> json" where
  "score_failure e =
     (if is_JSONDecodeError e then score_dict 15 (''Score parsing failed: '' @ str_exc e)
      else score_dict 10 (''Score calculation error: '' @ str_exc e))"

text \<open>
  \<open>calculate_fit_score\<close>. \<open>job_details_json\<close> is what \<open>json.dumps(job_details, indent=2)\<close>
  does while the prompt is built: it returns a text or raises, and a raise there is
  caught by the outermost handler.
\<close>

definition calculate_fit_score ::
    "library \<Rightarrow> service \<Rightarrow> parsed \<Rightarrow> exc + string \<Rightarrow> world \<Rightarrow> json \<times> world" where
  "calculate_fit_score lib sv parsed_resume job_details_json w =
     (if skills parsed_resume = [] \<and> experience parsed_resume = [] then
        (score_dict 5 ''Resume parsing failed or insufficient information provided'', w)
      else
        (case job_details_json of
           Inl e \<Rightarrow> (score_dict 5 (''Fatal scoring error: '' @ str_exc e), w)
         | Inr prompt \<Rightarrow>
             (case retry_loop (fit_attempt lib sv) 0 w of
                (Inl e, w') \<Rightarrow> (score_failure e, w')
              | (Inr scores, w') \<Rightarrow>
                  (case then_do (normalise_fields lib required_fields scores) weighted_average of
                     Inl e \<Rightarrow> (score_failure e, w')
                   | Inr scores' \<Rightarrow> (scores', w')))))"

text \<open>A numeric field of a result: present, a finite float, between 0 and 100.\<close>

definition score_in_range :: "json \<Rightarrow> string \<Rightarrow> bool" where
  "score_in_range result field =
     (case result of
        JDict kvs \<Rightarrow>
          (case map_of kvs field of
             Some (JFloat (Finite x)) \<Rightarrow> 0 \<le> x \<and> x \<le> 100
           | _ \<Rightarrow> False)
      | _ \<Rightarrow> False)"

text \<open>Fixtures for the scoring path.\<close>

definition library0 :: library where
  "library0 =
     \<lparr>json_loads = (\<lambda>s. Inl (JSONDecodeError ''Expecting value: line 1 column 1 (char 0)'')),
      float_of_str = (\<lambda>s. None),
      py_repr = (\<lambda>v. ''?''),
      split_text = (\<lambda>s. [s]),
      set_order = (\<lambda>xs. xs),
      preprocess_resume_text = (\<lambda>s. s),
      extract_json = (\<lambda>s. Inl (JSONDecodeError ''Expecting value: line 1 column 1 (char 0)'')),
      parse_unstructured_response = (\<lambda>text title salary. None)\<rparr>"

section \<open>parse_resume\<close>


























section \<open>generate_job_details\<close>











section \<open>Chunking\<close>

text \<open>
  Modelled from the spec: the chunking step is \<open>split_text\<close> of the
  \<open>RecursiveCharacterTextSplitter\<close> that \<open>__init__\<close> configures with \<open>chunk_size=1000\<close> and
  \<open>chunk_overlap=100\<close>; the splitter belongs to the \<open>langchain\<close> package and is not
  among the sources. The spec describes it as splitting the text into segments of at
  most \<open>chunkSize\<close> characters with \<open>chunkOverlap\<close> characters of overlap between
  consecutive segments: a segment starts where the previous one ended less the
  overlap, and the last segment ends with the text. \<open>chunk_bounds\<close> lists the
  half-open character ranges for a text of \<open>n\<close> characters from position \<open>start\<close> on.
\<close>

function chunk_bounds :: "nat \<Rightarrow> nat \<Rightarrow> nat \<Rightarrow> nat \<Rightarrow> (nat \<times> nat) list" where
  "chunk_bounds n chunkSize chunkOverlap start =
     (if n \<le> start then []
      else if chunkSize \<le> chunkOverlap \<or> n \<le> start + chunkSize then [(start, n)]
      else (start, start + chunkSize)
           # chunk_bounds n chunkSize chunkOverlap (start + chunkSize - chunkOverlap))"
  by pat_completeness auto
termination
  by (relation "measure (\<lambda>(n, chunkSize, chunkOverlap, start). n - start)") auto

declare chunk_bounds.simps [simp del]

definition spec_split_text :: "nat \<Rightarrow> nat \<Rightarrow> string \<Rightarrow> string list" where
  "spec_split_text chunkSize chunkOverlap text =
     map (\<lambda>(lo, hi). take (hi - lo) (drop lo text))
         (chunk_bounds (length text) chunkSize chunkOverlap 0)"

section \<open>Properties of the rate limiter\<close>

text \<open>
  C1. Claimed: with \<open>max_requests = 2\<close> and a 60 second window, the recorded timestamps
  never hold more than two entries of one 60 second window when a timestamp is appended.
  The code appends the value of \<open>now\<close> it read before sleeping. Three calls made one
  second apart on a fresh limiter leave the timestamps 0 s, 1 s and 2 s in the list, all
  three in the window starting at 0; the third call returned at 60.1 s. The stale
  timestamp also lets real requests through: two further calls, each one second after
  the previous return, come back at 61.1 s and 62.1 s, so that three requests are
  issued within the window starting at 60.1 s.
\<close>

theorem wait_if_needed_records_stale_now:
  "acquire_all [(0, 100000), (1000000, 100000), (1000000, 100000)] (0, RateLimiter_init 2 60) []
     = Inr ((60100000, \<lparr>max_requests = 2, time_window = 60, requests = [0, 1000000, 2000000]\<rparr>),
            [0, 1000000, 60100000])
   \<and> length (in_window (timedelta_seconds 60) 0 [0, 1000000, 2000000]) = 3
   \<and> acquire_all [(0, 100000), (1000000, 100000), (1000000, 100000), (1000000, 100000), (1000000, 100000)]
         (0, RateLimiter_init 2 60) []
     = Inr ((62100000, \<lparr>max_requests = 2, time_window = 60, requests = [61100000, 62100000]\<rparr>),
            [0, 1000000, 60100000, 61100000, 62100000])
   \<and> length (in_window (timedelta_seconds 60) 60100000 [0, 1000000, 60100000, 61100000, 62100000]) = 3"
  by (simp add: wait_if_needed_def RateLimiter_init_def timedelta_seconds_def in_window_def Let_def)

section \<open>Properties of the retry loop\<close>

lemma py_min_nonempty: "xs \<noteq> [] \<Longrightarrow> \<exists>m. py_min xs = Inr m"
  by (cases xs) auto

lemma wait_if_needed_returns:
  assumes "0 < max_requests (snd w)"
  shows "\<exists>c rl. wait_if_needed j w = (Inr (), (c, rl)) \<and> max_requests rl = max_requests (snd w)"
proof -
  let ?kept = "filter (\<lambda>t. fst w - t < timedelta_seconds (time_window (snd w))) (requests (snd w))"
  show ?thesis
  proof (cases "max_requests (snd w) \<le> length ?kept")
    case True
    with assms have "?kept \<noteq> []" by auto
    then obtain m where "py_min ?kept = Inr m" using py_min_nonempty by blast
    with True show ?thesis by (simp add: wait_if_needed_def Let_def)
  next
    case False
    then show ?thesis by (simp add: wait_if_needed_def Let_def)
  qed
qed

lemma acquire_returns:
  assumes "0 < max_requests (limiter w)"
  shows "\<exists>w1. acquire sv w = (Inr (), w1) \<and> issued w1 = issued w \<and> sleeps w1 = sleeps w
           \<and> max_requests (limiter w1) = max_requests (limiter w)"
proof -
  from wait_if_needed_returns[of "(clock w, limiter w)" "uniform sv (issued w)"] assms
  obtain c rl where "wait_if_needed (uniform sv (issued w)) (clock w, limiter w) = (Inr (), (c, rl))"
    and "max_requests rl = max_requests (limiter w)" by auto
  then show ?thesis by (simp add: acquire_def)
qed

lemma job_attempt_outcome:
  assumes "0 < max_requests (limiter w)"
  shows "\<exists>w'. job_attempt sv w = (job_outcome sv (issued w), w') \<and> issued w' = issued w + 1
           \<and> sleeps w' = sleeps w \<and> 0 < max_requests (limiter w')"
proof -
  from acquire_returns[OF assms, of sv] obtain w1 where a: "acquire sv w = (Inr (), w1)"
    and f: "issued w1 = issued w" "sleeps w1 = sleeps w" "max_requests (limiter w1) = max_requests (limiter w)"
    by blast
  show ?thesis
    using assms
    by (cases "generate_content sv (issued w)")
       (simp_all add: job_attempt_def a f send_def job_outcome_def)
qed

lemma fit_attempt_outcome:
  assumes "0 < max_requests (limiter w)"
  shows "\<exists>w'. fit_attempt lib sv w = (fit_outcome lib sv (issued w), w') \<and> issued w' = issued w + 1
           \<and> sleeps w' = sleeps w \<and> 0 < max_requests (limiter w')"
proof -
  from acquire_returns[OF assms, of sv] obtain w1 where a: "acquire sv w = (Inr (), w1)"
    and f: "issued w1 = issued w" "sleeps w1 = sleeps w" "max_requests (limiter w1) = max_requests (limiter w)"
    by blast
  show ?thesis
    using assms
    by (cases "generate_content sv (issued w)")
       (simp_all add: fit_attempt_def a f send_def fit_outcome_def)
qed

lemma time_sleep_fields [simp]:
  "issued (time_sleep n w) = issued w" "sleeps (time_sleep n w) = sleeps w @ [n]"
  "limiter (time_sleep n w) = limiter w"
  by (simp_all add: time_sleep_def)

lemma retry_loop_third:
  "retry_loop body (Suc (Suc 0)) w =
     (case body w of (Inr v, w') \<Rightarrow> (Inr v, w') | (Inl e, w') \<Rightarrow> (Inl retries_exhausted, w'))"
  by (subst retry_loop.simps) (simp add: max_retries_def split: prod.splits sum.splits)

lemma retry_loop_second:
  "retry_loop body (Suc 0) w =
     (case body w of
        (Inr v, w') \<Rightarrow> (Inr v, w')
      | (Inl e, w') \<Rightarrow>
          if str_contains ''429'' (str_exc e) then retry_loop body (Suc (Suc 0)) (time_sleep 35 w')
          else (Inl e, w'))"
  by (subst retry_loop.simps) (simp add: max_retries_def split: prod.splits sum.splits)

lemma retry_loop_first:
  "retry_loop body 0 w =
     (case body w of
        (Inr v, w') \<Rightarrow> (Inr v, w')
      | (Inl e, w') \<Rightarrow>
          if str_contains ''429'' (str_exc e) then retry_loop body (Suc 0) (time_sleep 35 w')
          else (Inl e, w'))"
  by (subst retry_loop.simps) (simp add: max_retries_def split: prod.splits sum.splits)

text \<open>
  The loop follows the policy for every \<open>try\<close> block that, given a limiter with a
  positive quota, issues one request, returns that request's outcome and does not sleep
  on its own account.
\<close>

lemma retry_loop_policy:
  fixes body :: "world \<Rightarrow> (exc + 'a) \<times> world" and out :: "nat \<Rightarrow> exc + 'a"
  assumes step: "\<And>w. 0 < max_requests (limiter w) \<Longrightarrow>
      \<exists>w'. body w = (out (issued w), w') \<and> issued w' = issued w + 1
           \<and> sleeps w' = sleeps w \<and> 0 < max_requests (limiter w')"
    and m0: "0 < max_requests (limiter w)"
  shows "observed (retry_loop body 0 w) = retry_policy out (issued w) (sleeps w)"
proof -
  define k where "k = issued w"
  from step[OF m0]
  obtain w1 where a1: "body w = (out k, w1)" and i1: "issued w1 = k + 1"
    and s1: "sleeps w1 = sleeps w" and m1: "0 < max_requests (limiter w1)"
    by (auto simp: k_def)
  have m1': "0 < max_requests (limiter (time_sleep 35 w1))" using m1 by simp
  from step[OF m1']
  obtain w2 where a2: "body (time_sleep 35 w1) = (out (k + 1), w2)"
    and i2: "issued w2 = k + 2" and s2: "sleeps w2 = sleeps w @ [35]"
    and m2: "0 < max_requests (limiter w2)"
    using i1 s1 by auto
  have m2': "0 < max_requests (limiter (time_sleep 35 w2))" using m2 by simp
  from step[OF m2']
  obtain w3 where a3: "body (time_sleep 35 w2) = (out (k + 2), w3)"
    and i3: "issued w3 = k + 3" and s3: "sleeps w3 = sleeps w @ [35, 35]"
    using i2 s2 by auto
  have unroll: "retry_loop body 0 w =
      (case out k of
         Inr v \<Rightarrow> (Inr v, w1)
       | Inl e1 \<Rightarrow>
           if str_contains ''429'' (str_exc e1) then
             (case out (k + 1) of
                Inr v \<Rightarrow> (Inr v, w2)
              | Inl e2 \<Rightarrow>
                  if str_contains ''429'' (str_exc e2) then
                    (case out (k + 2) of
                       Inr v \<Rightarrow> (Inr v, w3)
                     | Inl e3 \<Rightarrow> (Inl retries_exhausted, w3))
                  else (Inl e2, w2))
           else (Inl e1, w1))"
    by (simp add: retry_loop_first retry_loop_second retry_loop_third a1 a2 a3
        split: sum.splits)
  have three: "k + 3 - 1 = k + 2" by simp
  have rep: "replicate 2 (35::int) = [35, 35]" by (simp add: numeral_2_eq_2)
  show ?thesis
    unfolding unroll observed_def retry_policy_def attempts_made_def rate_exceeded_def k_def[symmetric]
    by (simp add: i1 i2 i3 s1 s2 s3 three rep max_retries_def Let_def split: sum.splits)
qed

text \<open>
  C2, as amended. Both retry loops, the one of \<open>generate_job_details\<close> (on its own
  fresh limiter) and the one of \<open>calculate_fit_score\<close> (on the agent's limiter, whose
  quota is positive), follow the policy: a failure whose text contains "429" on the
  first or second attempt is followed by a sleep of 35 seconds and another attempt;
  any other failure of the first or second attempt is passed on at once and unchanged;
  a failure of the third attempt, whatever it is, is replaced by the \<open>ValueError\<close> that
  carries the count 3, with no further sleep.
\<close>

theorem retry_loops_follow_policy:
  "observed (job_request sv w) = retry_policy (job_outcome sv) (issued w) (sleeps w)
   \<and> (0 < max_requests (limiter w) \<longrightarrow>
        observed (retry_loop (fit_attempt lib sv) 0 w)
          = retry_policy (fit_outcome lib sv) (issued w) (sleeps w))"
proof -
  let ?w0 = "w\<lparr>limiter := RateLimiter_init 2 60\<rparr>"
  have m0: "0 < max_requests (limiter ?w0)" by (simp add: RateLimiter_init_def)
  have "observed (retry_loop (job_attempt sv) 0 ?w0) = retry_policy (job_outcome sv) (issued ?w0) (sleeps ?w0)"
    by (rule retry_loop_policy[OF job_attempt_outcome m0])
  then have job: "observed (job_request sv w) = retry_policy (job_outcome sv) (issued w) (sleeps w)"
    by (simp add: job_request_def)
  have fit: "observed (retry_loop (fit_attempt lib sv) 0 w)
          = retry_policy (fit_outcome lib sv) (issued w) (sleeps w)"
    if "0 < max_requests (limiter w)"
    by (rule retry_loop_policy[OF fit_attempt_outcome that])
  from job fit show ?thesis by blast
qed

theorem retry_loops_follow_policy_witness:
  "0 < max_requests (limiter world0)
   \<and> observed (retry_loop (fit_attempt library0 quota_quota_crash) 0 world0)
       = (Inl (ValueError ''Failed to get response after 3 retries''), 3, [35, 35])
   \<and> observed (job_request quota_quota_crash world0)
       = (Inl (ValueError ''Failed to get response after 3 retries''), 3, [35, 35])"
proof -
  have m: "0 < max_requests (limiter world0)" by code_simp
  have p1: "retry_policy (fit_outcome library0 quota_quota_crash) (issued world0) (sleeps world0)
      = (Inl (ValueError ''Failed to get response after 3 retries''), 3, [35, 35])" by code_simp
  have p2: "retry_policy (job_outcome quota_quota_crash) (issued world0) (sleeps world0)
      = (Inl (ValueError ''Failed to get response after 3 retries''), 3, [35, 35])" by code_simp
  show ?thesis
    using retry_loops_follow_policy[of quota_quota_crash world0 library0] m p1 p2 by simp
qed

text \<open>
  C2, as claimed, fails: after two rate-exceeded failures a server error on the third
  attempt is not passed on; the caller sees the retries-exhausted error instead.
\<close>

theorem job_request_third_failure_replaced:
  "generate_content quota_quota_crash 2 = Inl (ApiError ''500 Internal error'')
   \<and> \<not> str_contains ''429'' (str_exc (ApiError ''500 Internal error''))
   \<and> fst (job_request quota_quota_crash world0) \<noteq> Inl (ApiError ''500 Internal error'')
   \<and> fst (job_request quota_quota_crash world0)
       = Inl (ValueError ''Failed to get response after 3 retries'')"
  by code_simp

section \<open>A sequence compared with itself\<close>

text \<open>
  \<open>run_len a i\<close> is the length of the run of elements that are not popular ending at
  position \<open>i\<close>. When \<open>a\<close> is matched against itself the dynamic programme keeps its best
  block on the diagonal, and the extension loops then stretch it over all of \<open>a\<close>.
\<close>

fun run_len :: "'a list \<Rightarrow> nat \<Rightarrow> nat" where
  "run_len a 0 = (if popular a (a ! 0) then 0 else 1)"
| "run_len a (Suc i) = (if popular a (a ! Suc i) then 0 else run_len a i + 1)"

lemma row_loop_step:
  assumes "\<not> j < blo" "\<not> bhi \<le> j" "k = (if j = 0 then 0 else j2len (j - 1)) + 1"
  shows "row_loop j2len i blo bhi (j # js) ((bi, bj, bs), new)
     = row_loop j2len i blo bhi js
         ((if k > bs then (i + 1 - k, j + 1 - k, k) else (bi, bj, bs)), new(j := k))"
  using assms by (simp add: Let_def)

lemma row_loop_diagonal:
  fixes j2len :: "nat \<Rightarrow> nat"
  defines "kf \<equiv> \<lambda>j. (if j = 0 then 0 else j2len (j - 1)) + 1"
  assumes "sorted js" "distinct js" "\<forall>j\<in>set js. blo \<le> j \<and> j < bhi"
    and "\<forall>j\<in>set js. j < i \<longrightarrow> kf j \<le> bs"
    and "\<forall>j\<in>set js. i < j \<longrightarrow> kf j \<le> kf i"
    and "i \<in> set js \<or> kf i \<le> bs"
  shows "(\<exists>d s. fst (row_loop j2len i blo bhi js ((bi, bi, bs), new)) = (d, d, s) \<and> bs \<le> s \<and> kf i \<le> s)
       \<and> snd (row_loop j2len i blo bhi js ((bi, bi, bs), new)) = (\<lambda>j. if j \<in> set js then kf j else new j)"
  using assms(2-)
proof (induction js arbitrary: bi bs new)
  case Nil
  then show ?case by simp
next
  case (Cons j js)
  have range: "\<not> j < blo" "\<not> bhi \<le> j" using Cons.prems(3) by auto
  have later: "\<forall>j'\<in>set js. j < j'" using Cons.prems(1,2) by (metis distinct.simps(2) le_neq_implies_less sorted_simps(2))
  have srt: "sorted js" "distinct js" "\<forall>j\<in>set js. blo \<le> j \<and> j < bhi"
    using Cons.prems(1,2,3) by auto
  have k: "kf j = (if j = 0 then 0 else j2len (j - 1)) + 1" by (simp add: kf_def)
  have step: "row_loop j2len i blo bhi (j # js) ((bi, bi, bs), new)
     = row_loop j2len i blo bhi js
         ((if kf j > bs then (i + 1 - kf j, j + 1 - kf j, kf j) else (bi, bi, bs)), new(j := kf j))"
    for bi bs new
    using range k by (rule row_loop_step)
  have fe: "(\<lambda>j'. if j' \<in> set js then kf j' else (new(j := kf j)) j')
      = (\<lambda>j'. if j' \<in> set (j # js) then kf j' else new j')" for new
    using later by (intro ext) auto
  consider (before) "j < i" | (at) "j = i" | (after) "i < j" by linarith
  then show ?case
  proof cases
    case before
    then have nu: "\<not> kf j > bs" using Cons.prems(4) by auto
    have eq: "row_loop j2len i blo bhi (j # js) ((bi, bi, bs), new)
        = row_loop j2len i blo bhi js ((bi, bi, bs), new(j := kf j))"
      using nu by (subst step) simp
    have h4: "\<forall>j\<in>set js. j < i \<longrightarrow> kf j \<le> bs" using Cons.prems(4) by auto
    have h5: "\<forall>j\<in>set js. i < j \<longrightarrow> kf j \<le> kf i" using Cons.prems(5) by auto
    have h6: "i \<in> set js \<or> kf i \<le> bs" using Cons.prems(6) before by auto
    from Cons.IH[OF srt h4 h5 h6, of bi "new(j := kf j)"]
    obtain d s where f: "fst (row_loop j2len i blo bhi js ((bi, bi, bs), new(j := kf j))) = (d, d, s)"
      and le: "bs \<le> s" "kf i \<le> s"
      and sn: "snd (row_loop j2len i blo bhi js ((bi, bi, bs), new(j := kf j)))
          = (\<lambda>j'. if j' \<in> set js then kf j' else (new(j := kf j)) j')"
      by blast
    from le have le': "bs \<le> s" by simp
    show ?thesis unfolding eq sn fe using f le' le(2) by blast
  next
    case at
    let ?s = "max bs (kf i)"
    let ?d = "if kf i > bs then i + 1 - kf i else bi"
    have eq: "row_loop j2len i blo bhi (j # js) ((bi, bi, bs), new)
        = row_loop j2len i blo bhi js ((?d, ?d, ?s), new(j := kf j))"
      using at by (subst step) (simp add: max_def)
    have h4: "\<forall>j\<in>set js. j < i \<longrightarrow> kf j \<le> ?s" using later at by auto
    have h5: "\<forall>j\<in>set js. i < j \<longrightarrow> kf j \<le> kf i" using Cons.prems(5) by auto
    have h6: "i \<in> set js \<or> kf i \<le> ?s" by simp
    from Cons.IH[OF srt h4 h5 h6, of ?d "new(j := kf j)"]
    obtain d s where f: "fst (row_loop j2len i blo bhi js ((?d, ?d, ?s), new(j := kf j))) = (d, d, s)"
      and le: "?s \<le> s" "kf i \<le> s"
      and sn: "snd (row_loop j2len i blo bhi js ((?d, ?d, ?s), new(j := kf j)))
          = (\<lambda>j'. if j' \<in> set js then kf j' else (new(j := kf j)) j')"
      by blast
    from le have le': "bs \<le> s" by simp
    show ?thesis unfolding eq sn fe using f le' le(2) by blast
  next
    case after
    then have "i \<notin> set (j # js)" using later by auto
    with Cons.prems(6) have ki: "kf i \<le> bs" by simp
    have "kf j \<le> kf i" using Cons.prems(5) after by simp
    with ki have nu: "\<not> kf j > bs" by simp
    have eq: "row_loop j2len i blo bhi (j # js) ((bi, bi, bs), new)
        = row_loop j2len i blo bhi js ((bi, bi, bs), new(j := kf j))"
      using nu by (subst step) simp
    have h4: "\<forall>j\<in>set js. j < i \<longrightarrow> kf j \<le> bs" using Cons.prems(4) by auto
    have h5: "\<forall>j\<in>set js. i < j \<longrightarrow> kf j \<le> kf i" using Cons.prems(5) by auto
    have h6: "i \<in> set js \<or> kf i \<le> bs" using ki by simp
    from Cons.IH[OF srt h4 h5 h6, of bi "new(j := kf j)"]
    obtain d s where f: "fst (row_loop j2len i blo bhi js ((bi, bi, bs), new(j := kf j))) = (d, d, s)"
      and le: "bs \<le> s" "kf i \<le> s"
      and sn: "snd (row_loop j2len i blo bhi js ((bi, bi, bs), new(j := kf j)))
          = (\<lambda>j'. if j' \<in> set js then kf j' else (new(j := kf j)) j')"
      by blast
    from le have le': "bs \<le> s" by simp
    show ?thesis unfolding eq sn fe using f le' le(2) by blast
  qed
qed


lemma run_len_unfold:
  "run_len a j = (if popular a (a ! j) then 0 else (if j = 0 then 0 else run_len a (j - 1)) + 1)"
  by (cases j) simp_all

definition diag_inv :: "'a list \<Rightarrow> nat \<Rightarrow> match \<times> (nat \<Rightarrow> nat) \<Rightarrow> bool" where
  "diag_inv a m st =
     ((\<exists>d s. fst st = (d, d, s) \<and> (\<forall>j<m. run_len a j \<le> s))
      \<and> (\<forall>j. snd st j \<le> run_len a j)
      \<and> (\<forall>j. snd st j \<le> (if m = 0 then 0 else run_len a (m - 1)))
      \<and> (0 < m \<longrightarrow> snd st (m - 1) = run_len a (m - 1)))"

lemma diag_inv_row:
  assumes inv: "diag_inv a m (best, j2len)" and m: "m < length a"
  shows "diag_inv a (Suc m) (row_loop j2len m 0 (length a) (b2j a (a ! m)) (best, (\<lambda>j. 0)))"
proof (cases "popular a (a ! m)")
  case True
  then have r: "run_len a m = 0" by (subst run_len_unfold) simp
  from True have "b2j a (a ! m) = []" by (simp add: b2j_def)
  then show ?thesis using inv r unfolding diag_inv_def by (auto simp: less_Suc_eq)
next
  case False
  define kf where "kf = (\<lambda>j. (if j = 0 then 0 else j2len (j - 1)) + 1)"
  define js where "js = filter (\<lambda>j. a ! j = a ! m) [0..<length a]"
  from inv obtain d s where best: "best = (d, d, s)" and i2: "\<forall>j<m. run_len a j \<le> s"
    and i3: "\<forall>j. j2len j \<le> run_len a j"
    and i5: "\<forall>j. j2len j \<le> (if m = 0 then 0 else run_len a (m - 1))"
    and i4: "0 < m \<longrightarrow> j2len (m - 1) = run_len a (m - 1)"
    unfolding diag_inv_def by auto
  have js: "b2j a (a ! m) = js" using False by (simp add: b2j_def js_def)
  have rm: "run_len a m = kf m"
    using False i4 i5 by (subst run_len_unfold) (auto simp: kf_def)
  have rj: "kf j \<le> run_len a j" if "j \<in> set js" for j
  proof -
    from that False have "\<not> popular a (a ! j)" by (simp add: js_def)
    then show ?thesis using i3 by (subst run_len_unfold) (auto simp: kf_def)
  qed
  have km: "kf j \<le> kf m" for j
    using i4 i5 by (auto simp: kf_def)
  have s1: "sorted js" "distinct js" "\<forall>j\<in>set js. 0 \<le> j \<and> j < length a"
    by (simp_all add: js_def sorted_wrt_filter)
  have h4: "\<forall>j\<in>set js. j < m \<longrightarrow> kf j \<le> s" using rj i2 by (meson le_trans)
  have h5: "\<forall>j\<in>set js. m < j \<longrightarrow> kf j \<le> kf m" using km by simp
  have h6: "m \<in> set js \<or> kf m \<le> s" using m by (simp add: js_def)
  from row_loop_diagonal[OF s1 h4[unfolded kf_def] h5[unfolded kf_def] h6[unfolded kf_def], of d "\<lambda>j. 0"]
  obtain d' s' where f: "fst (row_loop j2len m 0 (length a) js ((d, d, s), (\<lambda>j. 0))) = (d', d', s')"
    and le: "s \<le> s'" "kf m \<le> s'"
    and sn: "snd (row_loop j2len m 0 (length a) js ((d, d, s), (\<lambda>j. 0)))
        = (\<lambda>j. if j \<in> set js then kf j else 0)"
    unfolding kf_def by blast
  have a1: "\<forall>j<Suc m. run_len a j \<le> s'" using i2 le rm by (auto simp: less_Suc_eq intro: le_trans)
  have a2: "\<forall>j. (if j \<in> set js then kf j else 0) \<le> run_len a j" using rj by simp
  have a3: "\<forall>j. (if j \<in> set js then kf j else 0) \<le> run_len a m" using km rm by simp
  have a4: "(if m \<in> set js then kf m else 0) = run_len a m" using m rm by (simp add: js_def)
  show ?thesis unfolding js best diag_inv_def sn using f a1 a2 a3 a4 by auto
qed

lemma diag_inv_fold:
  "m \<le> length a \<Longrightarrow>
   diag_inv a m (fold (\<lambda>i (best, j2len). row_loop j2len i 0 (length a) (b2j a (a ! i)) (best, (\<lambda>j. 0)))
                    [0..<m] ((0, 0, 0), (\<lambda>j. 0)))"
proof (induction m)
  case 0
  then show ?case by (simp add: diag_inv_def)
next
  case (Suc m)
  let ?st = "fold (\<lambda>i (best, j2len). row_loop j2len i 0 (length a) (b2j a (a ! i)) (best, (\<lambda>j. 0)))
                    [0..<m] ((0, 0, 0), (\<lambda>j. 0))"
  obtain best j2len where st: "?st = (best, j2len)" by (cases ?st)
  from Suc have inv: "diag_inv a m (best, j2len)" and m: "m < length a" by (simp_all add: st)
  from diag_inv_row[OF inv m] show ?case by (simp add: st)
qed

lemma extend_left_diagonal: "extend_left a a 0 0 (d, d, s) = (0, 0, s + d)"
proof (induction d arbitrary: s)
  case 0
  then show ?case by (subst extend_left.simps) simp
next
  case (Suc d)
  then show ?case by (subst extend_left.simps) simp
qed

lemma extend_right_diagonal:
  "s \<le> n \<Longrightarrow> extend_right a a n n (0, 0, s) = (0, 0, n)"
proof (induction "n - s" arbitrary: s)
  case 0
  then show ?case by (subst extend_right.simps) simp
next
  case (Suc k)
  then have "extend_right a a n n (0, 0, s + 1) = (0, 0, n)" by simp
  moreover from Suc.hyps(2) have "s < n" by simp
  ultimately show ?case by (subst extend_right.simps) simp
qed

lemma find_longest_match_same:
  "find_longest_match a a 0 (length a) 0 (length a) = (0, 0, length a)"
proof -
  let ?st = "longest_junk_free a a 0 (length a) 0 (length a)"
  from diag_inv_fold[of "length a" a] obtain d s where f: "fst ?st = (d, d, s)"
    unfolding diag_inv_def longest_junk_free_def by auto
  from longest_junk_free_inside[of 0 "length a" a a 0 "length a"] f
  have "d + s \<le> length a" by (auto simp: block_inside_def)
  then show ?thesis
    by (simp add: find_longest_match_def f extend_left_diagonal extend_right_diagonal add.commute)
qed

lemma matching_blocks_same:
  "matching_blocks a a 0 (length a) 0 (length a) = (if a = [] then [] else [(0, 0, length a)])"
  by (subst matching_blocks.simps) (simp add: find_longest_match_same)

lemma ratio_same: "ratio a a = 1"
  by (simp add: ratio_def matching_blocks_same Let_def)

section \<open>Properties of the merge step\<close>

lemma should_add_iff:
  "should_add c xs \<longleftrightarrow> (\<forall>e\<in>set xs. \<not> similarity c e > 8 / 10)"
  by (induction xs) auto

lemma similarity_same: "similarity c c = 1"
  by (simp add: similarity_def ratio_same)

lemma should_add_member: "c \<in> set xs \<Longrightarrow> \<not> should_add c xs"
  unfolding should_add_iff using similarity_same[of c] by force

lemma should_add_append: "\<not> should_add c xs \<Longrightarrow> \<not> should_add c (xs @ ys)"
  unfolding should_add_iff by auto

lemma merge_chunk_data_extends: "\<exists>ys. merge_chunk_data xs new = xs @ ys"
proof (induction new arbitrary: xs)
  case Nil
  then show ?case by simp
next
  case (Cons c cs)
  show ?case
  proof (cases "should_add c xs")
    case True
    from Cons[of "xs @ [c]"] obtain ys where "merge_chunk_data (xs @ [c]) cs = (xs @ [c]) @ ys" ..
    with True show ?thesis by simp
  next
    case False
    with Cons[of xs] show ?thesis by simp
  qed
qed

lemma merge_chunk_data_suppresses:
  "c \<in> set new \<Longrightarrow> \<not> should_add c (merge_chunk_data xs new)"
proof (induction new arbitrary: xs)
  case Nil
  then show ?case by simp
next
  case (Cons d ds)
  let ?xs' = "if should_add d xs then xs @ [d] else xs"
  show ?case
  proof (cases "c = d")
    case True
    have "\<not> should_add d ?xs'" using should_add_member[of d "xs @ [d]"] by simp
    moreover obtain ys where "merge_chunk_data ?xs' ds = ?xs' @ ys"
      using merge_chunk_data_extends by blast
    ultimately show ?thesis using True should_add_append[of d ?xs' ys] by simp
  next
    case False
    with Cons.prems have "c \<in> set ds" by simp
    from Cons.IH[OF this, of ?xs'] show ?thesis by simp
  qed
qed

lemma merge_chunk_data_nothing_new:
  "\<forall>c\<in>set new. \<not> should_add c xs \<Longrightarrow> merge_chunk_data xs new = xs"
  by (induction new) auto

text \<open>
  C3, as amended. Each candidate is judged against the list as it stands when its turn
  comes: it is discarded exactly when its lower-cased comparison string has a
  similarity ratio strictly above 0.8 with that of some element already in the list,
  and appended otherwise; a ratio of exactly 0.8 does not make it a duplicate.
\<close>

theorem merge_chunk_data_step:
  "merge_chunk_data existing (c # cs) =
     merge_chunk_data
       (if \<exists>e\<in>set existing. similarity c e > 4 / 5 then existing else existing @ [c]) cs"
proof -
  have "(8::rat) / 10 = 4 / 5" by simp
  then show ?thesis by (simp add: should_add_iff)
qed

theorem merge_chunk_data_step_witness:
  "(\<exists>e\<in>set [Skill ''Python'']. similarity (Skill ''python '') e > 4 / 5)
   \<and> merge_chunk_data [Skill ''Python''] [Skill ''python ''] = [Skill ''Python'']
   \<and> \<not> (\<exists>e\<in>set [Skill ''Python'']. similarity (Skill ''Project Management'') e > 4 / 5)
   \<and> merge_chunk_data [Skill ''Python''] [Skill ''Project Management'']
       = [Skill ''Python'', Skill ''Project Management'']"
proof -
  have s1: "similarity (Skill ''python '') (Skill ''Python'') = 12 / 13" by code_simp
  have s2: "similarity (Skill ''Project Management'') (Skill ''Python'') = 1 / 4" by code_simp
  show ?thesis
    using merge_chunk_data_step[of "[Skill ''Python'']" "Skill ''python ''" "[]"]
      merge_chunk_data_step[of "[Skill ''Python'']" "Skill ''Project Management''" "[]"]
    by (simp add: s1 s2)
qed

text \<open>
  C3, as claimed, fails at the threshold: \<open>"abcdx"\<close> against \<open>"abcde"\<close> has the ratio
  \<open>2 * 4 / 10\<close>, exactly 0.8, and the candidate is appended (the code tests
  \<open>similarity > 0.8\<close>).
\<close>

theorem merge_chunk_data_keeps_ratio_four_fifths:
  "similarity (Skill ''abcdx'') (Skill ''abcde'') = 4 / 5
   \<and> merge_chunk_data [Skill ''abcde''] [Skill ''abcdx''] = [Skill ''abcde'', Skill ''abcdx'']"
  by code_simp

text \<open>
  C8. Merging the same chunk list a second time changes nothing: every candidate of the
  second pass meets either its own first copy (ratio 1) or the element that suppressed
  it in the first pass.
\<close>

theorem merge_chunk_data_idempotent:
  "merge_chunk_data (merge_chunk_data existing new) new = merge_chunk_data existing new"
  by (rule merge_chunk_data_nothing_new) (simp add: merge_chunk_data_suppresses)

section \<open>Properties of finalization\<close>

text \<open>
  C5. Finalizing the accumulator whose four sections are empty gives exactly one
  placeholder entry in each section; and whatever the accumulator, no section of the
  finalized structure is empty.
\<close>

theorem finalize_never_empty:
  "finalize empty_info =
     \<lparr>education = [Education ''Not Specified'' ''Not Specified'' ''Not Specified''],
      skills = [Skill ''General Skills''],
      experience = [Experience ''Not Specified'' ''Not Specified'' ''Not Specified'' [''Not Specified'']],
      projects = [Project ''Not Specified'' ''Not Specified'' [''Not Specified'']],
      parsing_error = None\<rparr>
   \<and> education (finalize acc) \<noteq> [] \<and> skills (finalize acc) \<noteq> []
   \<and> experience (finalize acc) \<noteq> [] \<and> projects (finalize acc) \<noteq> []"
  by (simp add: finalize_def is_valid_result_def clean_combined_info_def empty_info_def
      not_specified_def Let_def)

section \<open>Properties of calculate_fit_score\<close>

text \<open>
  C6. When the skills list and the experience list of the parsed resume are both
  empty, \<open>calculate_fit_score\<close> returns the fixed mapping with 5.0 in each of the four
  numeric fields (and its fixed reasoning text), and the world is unchanged: no request
  is sent to the generation service and nothing sleeps.
\<close>

theorem calculate_fit_score_minimal:
  assumes "skills parsed_resume = []" and "experience parsed_resume = []"
  shows "calculate_fit_score lib sv parsed_resume job_details_json w =
           (JDict [(''skill_match_score'', JFloat (Finite 5)),
                   (''experience_relevance_score'', JFloat (Finite 5)),
                   (''education_alignment_score'', JFloat (Finite 5)),
                   (''overall_fit_score'', JFloat (Finite 5)),
                   (''reasoning'', JStr ''Resume parsing failed or insufficient information provided'')],
            w)"
  using assms by (simp add: calculate_fit_score_def score_dict_def)

theorem calculate_fit_score_minimal_witness:
  "skills empty_info = [] \<and> experience empty_info = []
   \<and> calculate_fit_score library0 quota_quota_crash empty_info (Inr ''{}'') world0 =
           (JDict [(''skill_match_score'', JFloat (Finite 5)),
                   (''experience_relevance_score'', JFloat (Finite 5)),
                   (''education_alignment_score'', JFloat (Finite 5)),
                   (''overall_fit_score'', JFloat (Finite 5)),
                   (''reasoning'', JStr ''Resume parsing failed or insufficient information provided'')],
            world0)
   \<and> issued (snd (calculate_fit_score library0 quota_quota_crash empty_info (Inr ''{}'') world0)) = 0"
proof -
  have s: "skills empty_info = []" and e: "experience empty_info = []"
    by (simp_all add: empty_info_def)
  show ?thesis
    using calculate_fit_score_minimal[OF s e, of library0 quota_quota_crash "Inr ''{}''" world0] s e
    by (simp add: world0_def)
qed

lemma clamp_range:
  "\<exists>x. py_max2 (Finite 0) (py_min2 (Finite 100) f) = Finite x \<and> 0 \<le> x \<and> x \<le> 100"
  by (cases f) (auto simp: py_max2_def py_min2_def)

lemma map_of_dict_set: "map_of (dict_set kvs k v) = (map_of kvs)(k \<mapsto> v)"
  by (induction kvs) (auto simp: fun_eq_iff)

lemma score_in_range_dict_set_same:
  "0 \<le> x \<Longrightarrow> x \<le> 100 \<Longrightarrow> score_in_range (JDict (dict_set kvs k (JFloat (Finite x)))) k"
  by (simp add: score_in_range_def map_of_dict_set)

lemma score_in_range_dict_set_other:
  "g \<noteq> k \<Longrightarrow> score_in_range (JDict (dict_set kvs k v)) g = score_in_range (JDict kvs) g"
  by (simp add: score_in_range_def map_of_dict_set)

lemma score_in_range_dict: "score_in_range scores g \<Longrightarrow> \<exists>kvs. scores = JDict kvs"
  by (cases scores) (simp_all add: score_in_range_def)

lemma convert_and_clamp_dict:
  assumes "convert_and_clamp lib (JDict kvs) field = Inr r"
  shows "score_in_range r field \<and> (\<forall>g. g \<noteq> field \<longrightarrow> score_in_range r g = score_in_range (JDict kvs) g)"
proof -
  from assms obtain f where
    r: "r = JDict (dict_set (dict_set kvs field (JFloat f)) field
                   (JFloat (py_max2 (Finite 0) (py_min2 (Finite 100) f))))"
    by (auto simp: convert_and_clamp_def then_do_def split: option.splits sum.splits)
  from clamp_range[of f] obtain x where
    x: "py_max2 (Finite 0) (py_min2 (Finite 100) f) = Finite x" "0 \<le> x" "x \<le> 100" by blast
  show ?thesis
    unfolding r x(1)
    using x(2,3) by (simp add: score_in_range_dict_set_same score_in_range_dict_set_other)
qed

lemma normalise_field_dict:
  assumes "normalise_field lib field (JDict kvs) = Inr r"
  shows "(field \<noteq> ''reasoning'' \<longrightarrow> score_in_range r field)
       \<and> (\<forall>g. g \<noteq> field \<longrightarrow> score_in_range r g = score_in_range (JDict kvs) g)
       \<and> (\<exists>kvs'. r = JDict kvs')"
proof (cases "field \<in> set (map fst kvs)")
  case False
  with assms have "r = JDict (dict_set kvs field
      (if field \<noteq> ''reasoning'' then JFloat (Finite 15) else JStr ''Score calculation incomplete''))"
    by (simp add: normalise_field_def then_do_def)
  then show ?thesis
    by (simp add: score_in_range_dict_set_same score_in_range_dict_set_other)
next
  case present: True
  show ?thesis
  proof (cases "field = ''reasoning''")
    case True
    with assms present have "r = JDict kvs" by (simp add: normalise_field_def then_do_def)
    then show ?thesis using True by simp
  next
    case numeric: False
    show ?thesis
    proof (cases "convert_and_clamp lib (JDict kvs) field")
      case (Inr r')
      with assms present numeric have "r = r'" by (simp add: normalise_field_def then_do_def)
      moreover from Inr obtain kvs' where "r' = JDict kvs'"
        by (auto simp: convert_and_clamp_def then_do_def split: option.splits sum.splits)
      ultimately show ?thesis using convert_and_clamp_dict[OF Inr] numeric by simp
    next
      case (Inl e)
      with assms present numeric have "r = JDict (dict_set kvs field (JFloat (Finite 15)))"
        by (simp add: normalise_field_def then_do_def split: if_splits)
      then show ?thesis
        by (simp add: score_in_range_dict_set_same score_in_range_dict_set_other)
    qed
  qed
qed

lemma normalise_field_numeric_needs_dict:
  assumes "normalise_field lib field scores = Inr r" and "field \<noteq> ''reasoning''"
  shows "\<exists>kvs. scores = JDict kvs"
  using assms
  by (cases scores)
     (auto simp: normalise_field_def then_do_def convert_and_clamp_def split: if_splits sum.splits)

lemma normalise_fields_in_range:
  assumes "normalise_fields lib required_fields scores = Inr r"
  shows "score_in_range r ''skill_match_score'' \<and> score_in_range r ''experience_relevance_score''
       \<and> score_in_range r ''education_alignment_score'' \<and> score_in_range r ''overall_fit_score''"
proof -
  from assms obtain r1 r2 r3 r4 where
    n1: "normalise_field lib ''skill_match_score'' scores = Inr r1" and
    n2: "normalise_field lib ''experience_relevance_score'' r1 = Inr r2" and
    n3: "normalise_field lib ''education_alignment_score'' r2 = Inr r3" and
    n4: "normalise_field lib ''overall_fit_score'' r3 = Inr r4" and
    n5: "normalise_field lib ''reasoning'' r4 = Inr r"
    by (auto simp: required_fields_def then_do_def split: sum.splits)
  from normalise_field_numeric_needs_dict[OF n1] obtain k0 where k0: "scores = JDict k0" by auto
  from normalise_field_dict[OF n1[unfolded k0]] obtain k1 where k1: "r1 = JDict k1"
    and g1: "score_in_range r1 ''skill_match_score''" by auto
  from normalise_field_dict[OF n2[unfolded k1]] obtain k2 where k2: "r2 = JDict k2"
    and g2: "score_in_range r2 ''experience_relevance_score''" "score_in_range r2 ''skill_match_score''"
    using g1 k1 by auto
  from normalise_field_dict[OF n3[unfolded k2]] obtain k3 where k3: "r3 = JDict k3"
    and g3: "score_in_range r3 ''education_alignment_score''"
      "score_in_range r3 ''experience_relevance_score''" "score_in_range r3 ''skill_match_score''"
    using g2 k2 by auto
  from normalise_field_dict[OF n4[unfolded k3]] obtain k4 where k4: "r4 = JDict k4"
    and g4: "score_in_range r4 ''overall_fit_score''" "score_in_range r4 ''education_alignment_score''"
      "score_in_range r4 ''experience_relevance_score''" "score_in_range r4 ''skill_match_score''"
    using g3 k3 by auto
  from normalise_field_dict[OF n5[unfolded k4]] show ?thesis using g4 k4 by auto
qed

lemma score_in_range_value:
  assumes "score_in_range (JDict kvs) g"
  shows "\<exists>x. map_of kvs g = Some (JFloat (Finite x)) \<and> 0 \<le> x \<and> x \<le> 100"
  using assms by (auto simp: score_in_range_def split: option.splits json.splits pyfloat.splits)

lemma weighted_average_in_range:
  assumes "score_in_range r ''skill_match_score''" "score_in_range r ''experience_relevance_score''"
    "score_in_range r ''education_alignment_score''" "score_in_range r ''overall_fit_score''"
    and "weighted_average r = Inr r'"
  shows "score_in_range r' ''skill_match_score'' \<and> score_in_range r' ''experience_relevance_score''
       \<and> score_in_range r' ''education_alignment_score'' \<and> score_in_range r' ''overall_fit_score''"
proof -
  from score_in_range_dict[OF assms(1)] obtain kvs where r: "r = JDict kvs" by auto
  from score_in_range_value assms(1-4) r obtain s e d v where
    s: "map_of kvs ''skill_match_score'' = Some (JFloat (Finite s))" "0 \<le> s" "s \<le> 100" and
    e: "map_of kvs ''experience_relevance_score'' = Some (JFloat (Finite e))" "0 \<le> e" "e \<le> 100" and
    d: "map_of kvs ''education_alignment_score'' = Some (JFloat (Finite d))" "0 \<le> d" "d \<le> 100" and
    v: "map_of kvs ''overall_fit_score'' = Some (JFloat (Finite v))" "0 \<le> v" "v \<le> 100"
    by metis
  show ?thesis
  proof (cases "v = 0")
    case False
    with assms(5) v have "r' = r" by (simp add: weighted_average_def then_do_def r)
    with assms(1-4) show ?thesis by simp
  next
    case True
    let ?avg = "4 / 10 * s + 4 / 10 * e + 2 / 10 * d"
    from True assms(5) s e d v have r': "r' = JDict (dict_set kvs ''overall_fit_score'' (JFloat (Finite ?avg)))"
      by (simp add: weighted_average_def then_do_def r)
    have "0 \<le> ?avg" "?avg \<le> 100" using s(2,3) e(2,3) d(2,3) by simp_all
    then show ?thesis unfolding r'
      using assms(1-3) r by (simp add: score_in_range_dict_set_same score_in_range_dict_set_other)
  qed
qed

lemma score_dict_in_range:
  assumes "0 \<le> x" "x \<le> 100"
  shows "score_in_range (score_dict x m) ''skill_match_score''
       \<and> score_in_range (score_dict x m) ''experience_relevance_score''
       \<and> score_in_range (score_dict x m) ''education_alignment_score''
       \<and> score_in_range (score_dict x m) ''overall_fit_score''"
  using assms by (simp add: score_dict_def score_in_range_def)

text \<open>
  C10. Whatever the service answers and whatever \<open>json.loads\<close> makes of it, each of
  the four numeric fields of the mapping \<open>calculate_fit_score\<close> returns is a number
  between 0 and 100. The scores are rationals here; float rounding is monotone and
  leaves 0.0, 40.0, 20.0 and 100.0 in place, so it cannot carry the weighted average of
  clamped scores out of the interval.
\<close>

theorem calculate_fit_score_in_range:
  "score_in_range (fst (calculate_fit_score lib sv parsed_resume job_details_json w)) ''skill_match_score''
   \<and> score_in_range (fst (calculate_fit_score lib sv parsed_resume job_details_json w)) ''experience_relevance_score''
   \<and> score_in_range (fst (calculate_fit_score lib sv parsed_resume job_details_json w)) ''education_alignment_score''
   \<and> score_in_range (fst (calculate_fit_score lib sv parsed_resume job_details_json w)) ''overall_fit_score''"
proof -
  have fail: "score_in_range (score_failure e) ''skill_match_score''
       \<and> score_in_range (score_failure e) ''experience_relevance_score''
       \<and> score_in_range (score_failure e) ''education_alignment_score''
       \<and> score_in_range (score_failure e) ''overall_fit_score''" for e
    unfolding score_failure_def using score_dict_in_range[of 15] score_dict_in_range[of 10] by simp
  show ?thesis
  proof (cases "skills parsed_resume = [] \<and> experience parsed_resume = []")
    case True
    then show ?thesis
      using score_dict_in_range[of 5] by (simp add: calculate_fit_score_def)
  next
    case False
    then have started: "calculate_fit_score lib sv parsed_resume job_details_json w =
        (case job_details_json of
           Inl e \<Rightarrow> (score_dict 5 (''Fatal scoring error: '' @ str_exc e), w)
         | Inr prompt \<Rightarrow>
             (case retry_loop (fit_attempt lib sv) 0 w of
                (Inl e, w') \<Rightarrow> (score_failure e, w')
              | (Inr scores, w') \<Rightarrow>
                  (case then_do (normalise_fields lib required_fields scores) weighted_average of
                     Inl e \<Rightarrow> (score_failure e, w')
                   | Inr scores' \<Rightarrow> (scores', w'))))"
      unfolding calculate_fit_score_def by (simp only: if_False)
    show ?thesis
    proof (cases job_details_json)
      case (Inl e)
      then show ?thesis
        unfolding started using score_dict_in_range[of 5] by simp
    next
      case prompt: (Inr p)
      obtain out w' where loop: "retry_loop (fit_attempt lib sv) 0 w = (out, w')"
        by (cases "retry_loop (fit_attempt lib sv) 0 w")
      show ?thesis
      proof (cases out)
        case (Inl e)
        with prompt loop show ?thesis
          unfolding started using fail[of e] by simp
      next
        case (Inr scores)
        show ?thesis
        proof (cases "normalise_fields lib required_fields scores")
          case (Inl e)
          with prompt loop Inr show ?thesis
            unfolding started using fail[of e] by (simp add: then_do_def)
        next
          case n: (Inr r)
          show ?thesis
          proof (cases "weighted_average r")
            case (Inl e)
            with prompt loop Inr n show ?thesis
              unfolding started using fail[of e] by (simp add: then_do_def)
          next
            case wa: (Inr r')
            from normalise_fields_in_range[OF n] weighted_average_in_range[OF _ _ _ _ wa]
            have "score_in_range r' ''skill_match_score'' \<and> score_in_range r' ''experience_relevance_score''
              \<and> score_in_range r' ''education_alignment_score'' \<and> score_in_range r' ''overall_fit_score''"
              by blast
            with prompt loop Inr n wa show ?thesis
              unfolding started by (simp add: then_do_def)
          qed
        qed
      qed
    qed
  qed
qed

section \<open>Properties of the two entry points\<close>

























section \<open>Properties of chunking\<close>

text \<open>
  C7. By the splitter as the spec describes it, a text of exactly 2500 characters, with
  chunk size 1000 and overlap 100, is split into exactly three chunks, the character
  ranges [0,1000), [900,1900) and [1800,2500).
\<close>

theorem chunking_2500:
  assumes "length text = 2500"
  shows "chunk_bounds (length text) 1000 100 0 = [(0, 1000), (900, 1900), (1800, 2500)]
       \<and> spec_split_text 1000 100 text
           = [take 1000 text, take 1000 (drop 900 text), take 700 (drop 1800 text)]
       \<and> length (spec_split_text 1000 100 text) = 3"
proof -
  have b: "chunk_bounds 2500 1000 100 0 = [(0, 1000), (900, 1900), (1800, 2500)]"
    by (simp add: chunk_bounds.simps[of 2500 1000 100 0] chunk_bounds.simps[of 2500 1000 100 900]
        chunk_bounds.simps[of 2500 1000 100 1800])
  show ?thesis by (simp add: spec_split_text_def assms b)
qed

theorem chunking_2500_witness:
  "length (replicate 2500 (CHR ''a'')) = 2500
   \<and> chunk_bounds (length (replicate 2500 (CHR ''a''))) 1000 100 0
       = [(0, 1000), (900, 1900), (1800, 2500)]
   \<and> length (spec_split_text 1000 100 (replicate 2500 (CHR ''a''))) = 3"
proof -
  have l: "length (replicate 2500 (CHR ''a'')) = 2500" by simp
  from chunking_2500[OF l] l show ?thesis by simp
qed

end
